theory Spec2Isabelle
  imports Main "HOL-Library.Word" "HOL-Library.Char_ord"
begin

section \<open>Bytes and strings\<close>

text \<open>
  A Go \<^verbatim>\<open>string\<close> is a sequence of bytes and \<^verbatim>\<open>s[i]\<close> is a \<^verbatim>\<open>byte\<close>; a HOL
  \<^typ>\<open>char\<close> is one byte, so a Go string is a \<^typ>\<open>string\<close>. Byte arithmetic
  (\<^verbatim>\<open>c -= 'a' - 'A'\<close>) wraps modulo 256, which is what \<^const>\<open>char_of\<close> does to an
  integer.
\<close>

definition byte_add :: "char \<Rightarrow> int \<Rightarrow> char" where
  "byte_add c k = char_of ((of_char c :: int) + k)"

definition isASCIILower :: "char \<Rightarrow> bool" where
  "isASCIILower c = (CHR ''a'' \<le> c \<and> c \<le> CHR ''z'')"

definition isASCIIUpper :: "char \<Rightarrow> bool" where
  "isASCIIUpper c = (CHR ''A'' \<le> c \<and> c \<le> CHR ''Z'')"

definition isASCIIDigit :: "char \<Rightarrow> bool" where
  "isASCIIDigit c = (CHR ''0'' \<le> c \<and> c \<le> CHR ''9'')"

text \<open>A string of decimal digits.\<close>

definition digits :: "string \<Rightarrow> bool" where
  "digits s = list_all isASCIIDigit s"

section \<open>Name converter\<close>

text \<open>
  \<^verbatim>\<open>JSONCamelCase\<close>: the loop over \<^verbatim>\<open>s\<close> with its two variables, the output
  \<^verbatim>\<open>b\<close> and the flag \<^verbatim>\<open>wasUnderscore\<close>. The flag is assigned from \<^verbatim>\<open>c\<close> after
  \<^verbatim>\<open>c\<close> may have been upper-cased, as in the source.
\<close>

fun JSONCamelCase_loop :: "string \<Rightarrow> bool \<Rightarrow> string \<Rightarrow> string" where
  "JSONCamelCase_loop [] wasUnderscore b = b"
| "JSONCamelCase_loop (c # s) wasUnderscore b =
     (let c' = (if c \<noteq> CHR ''_'' \<and> wasUnderscore \<and> isASCIILower c
                then byte_add c (- 32) else c);
          b' = (if c \<noteq> CHR ''_'' then b @ [c'] else b)
      in JSONCamelCase_loop s (c' = CHR ''_'') b')"

definition JSONCamelCase :: "string \<Rightarrow> string" where
  "JSONCamelCase s = JSONCamelCase_loop s False []"

text \<open>\<^verbatim>\<open>JSONSnakeCase\<close>: an underscore before every upper-case letter, which is lower-cased.\<close>

fun JSONSnakeCase_loop :: "string \<Rightarrow> string \<Rightarrow> string" where
  "JSONSnakeCase_loop [] b = b"
| "JSONSnakeCase_loop (c # s) b =
     (if isASCIIUpper c
      then JSONSnakeCase_loop s (b @ [CHR ''_''] @ [byte_add c 32])
      else JSONSnakeCase_loop s (b @ [c]))"

definition JSONSnakeCase :: "string \<Rightarrow> string" where
  "JSONSnakeCase s = JSONSnakeCase_loop s []"

text \<open>
  What \<^verbatim>\<open>JSONCamelCase\<close> computes, in closed form: every byte is paired with the byte
  before it (the first with a byte that is no underscore, the initial value of the flag),
  the underscores are filtered out, and a lower-case letter that followed an underscore
  is upper-cased.
\<close>

definition camel_byte :: "char \<times> char \<Rightarrow> char" where
  "camel_byte pc = (if fst pc = CHR ''_'' \<and> isASCIILower (snd pc)
                    then byte_add (snd pc) (- 32) else snd pc)"

definition camel_closed :: "string \<Rightarrow> string" where
  "camel_closed s =
     map camel_byte (filter (\<lambda>pc. snd pc \<noteq> CHR ''_'') (zip (CHR ''x'' # s) s))"

section \<open>Regular expressions of the byte-level contract\<close>

text \<open>
  The specification fixes the text of a duration and of a timestamp by regular
  expressions. They are given a meaning here: a datatype of expressions, the language of
  an expression, and a matcher that runs (by derivatives) and decides that language.
\<close>

datatype regex =
    Never
  | Eps
  | Byte char
  | Range char char
  | Alt regex regex
  | Seq regex regex
  | Star regex

inductive_set star :: "string set \<Rightarrow> string set" for A :: "string set" where
  star_empty: "[] \<in> star A"
| star_step: "u \<in> A \<Longrightarrow> v \<in> star A \<Longrightarrow> u @ v \<in> star A"

fun lang :: "regex \<Rightarrow> string set" where
  "lang Never = {}"
| "lang Eps = {[]}"
| "lang (Byte c) = {[c]}"
| "lang (Range lo hi) = {[c] | c. lo \<le> c \<and> c \<le> hi}"
| "lang (Alt r s) = lang r \<union> lang s"
| "lang (Seq r s) = {u @ v | u v. u \<in> lang r \<and> v \<in> lang s}"
| "lang (Star r) = star (lang r)"

fun nullable :: "regex \<Rightarrow> bool" where
  "nullable Never = False"
| "nullable Eps = True"
| "nullable (Byte c) = False"
| "nullable (Range lo hi) = False"
| "nullable (Alt r s) = (nullable r \<or> nullable s)"
| "nullable (Seq r s) = (nullable r \<and> nullable s)"
| "nullable (Star r) = True"

fun deriv :: "char \<Rightarrow> regex \<Rightarrow> regex" where
  "deriv a Never = Never"
| "deriv a Eps = Never"
| "deriv a (Byte c) = (if a = c then Eps else Never)"
| "deriv a (Range lo hi) = (if lo \<le> a \<and> a \<le> hi then Eps else Never)"
| "deriv a (Alt r s) = Alt (deriv a r) (deriv a s)"
| "deriv a (Seq r s) =
     (if nullable r then Alt (Seq (deriv a r) s) (deriv a s) else Seq (deriv a r) s)"
| "deriv a (Star r) = Seq (deriv a r) (Star r)"

fun matches :: "regex \<Rightarrow> string \<Rightarrow> bool" where
  "matches r [] = nullable r"
| "matches r (a # w) = matches (deriv a r) w"

definition opt :: "regex \<Rightarrow> regex" where
  "opt r = Alt r Eps"

definition plus1 :: "regex \<Rightarrow> regex" where
  "plus1 r = Seq r (Star r)"

primrec rep :: "nat \<Rightarrow> regex \<Rightarrow> regex" where
  "rep 0 r = Eps"
| "rep (Suc n) r = Seq r (rep n r)"

definition digit_re :: regex where
  "digit_re = Range (CHR ''0'') (CHR ''9'')"

text \<open>\<^verbatim>\<open>(\.[0-9]{3}|\.[0-9]{6}|\.[0-9]{9})?\<close>, the fraction of both texts.\<close>

definition fraction_re :: regex where
  "fraction_re =
     opt (Alt (Seq (Byte (CHR ''.'')) (rep 3 digit_re))
         (Alt (Seq (Byte (CHR ''.'')) (rep 6 digit_re))
              (Seq (Byte (CHR ''.'')) (rep 9 digit_re))))"

text \<open>\<^verbatim>\<open>^-?[0-9]+(\.[0-9]{3}|\.[0-9]{6}|\.[0-9]{9})?s$\<close>\<close>

definition duration_re :: regex where
  "duration_re =
     Seq (opt (Byte (CHR ''-''))) (Seq (plus1 digit_re) (Seq fraction_re (Byte (CHR ''s''))))"

text \<open>
  \<^verbatim>\<open>^[0-9]{4}-[0-9]{2}-[0-9]{2}T[0-9]{2}:[0-9]{2}:[0-9]{2}(\.[0-9]{3}|\.[0-9]{6}|\.[0-9]{9})?Z$\<close>
\<close>

definition timestamp_re :: regex where
  "timestamp_re =
     Seq (rep 4 digit_re) (Seq (Byte (CHR ''-'')) (Seq (rep 2 digit_re) (Seq (Byte (CHR ''-''))
    (Seq (rep 2 digit_re) (Seq (Byte (CHR ''T'')) (Seq (rep 2 digit_re) (Seq (Byte (CHR '':''))
    (Seq (rep 2 digit_re) (Seq (Byte (CHR '':'')) (Seq (rep 2 digit_re)
    (Seq fraction_re (Byte (CHR ''Z'')))))))))))))"

section \<open>Formatting and trimming (the Go library calls the encoders make)\<close>

text \<open>
  \<^verbatim>\<open>fmt.Sprintf\<close> with the verbs \<^verbatim>\<open>%d\<close> and \<^verbatim>\<open>%09d\<close>: the decimal digits of the
  magnitude, a minus sign before a negative number, and for \<^verbatim>\<open>%09d\<close> zeros after the
  sign up to a width of nine.
\<close>

fun dec :: "nat \<Rightarrow> string" where
  "dec n = (if n < 10 then [''0123456789'' ! n]
            else dec (n div 10) @ [''0123456789'' ! (n mod 10)])"

declare dec.simps [simp del]

definition fmt_d :: "int \<Rightarrow> string" where
  "fmt_d k = (if k < 0 then ''-'' @ dec (nat (- k)) else dec (nat k))"

definition pad0 :: "nat \<Rightarrow> string \<Rightarrow> string" where
  "pad0 w s = replicate (w - length s) (CHR ''0'') @ s"

definition fmt_0d :: "nat \<Rightarrow> int \<Rightarrow> string" where
  "fmt_0d w k =
     (if k < 0 then ''-'' @ pad0 (w - 1) (dec (nat (- k))) else pad0 w (dec (nat k)))"

text \<open>\<^verbatim>\<open>strings.HasSuffix\<close> and \<^verbatim>\<open>strings.TrimSuffix\<close>.\<close>

definition HasSuffix :: "string \<Rightarrow> string \<Rightarrow> bool" where
  "HasSuffix s suffix =
     (length suffix \<le> length s \<and> drop (length s - length suffix) s = suffix)"

definition TrimSuffix :: "string \<Rightarrow> string \<Rightarrow> string" where
  "TrimSuffix s suffix =
     (if HasSuffix s suffix then take (length s - length suffix) s else s)"

text \<open>The three trimming steps both encoders apply to their text.\<close>

definition trim3 :: "string \<Rightarrow> string" where
  "trim3 x = TrimSuffix (TrimSuffix (TrimSuffix x ''000'') ''000'') ''.000''"

section \<open>Token writer and errors\<close>

text \<open>
  The encoder appends JSON tokens to its output. \<^verbatim>\<open>WriteString\<close> reports an error for a
  string that is not valid UTF-8; the check belongs to the token writer, which is not
  among the sources, so the encoder carries it as a field. The marshal functions mutate
  the encoder and return an error value: here they return the encoder and the error.
\<close>

datatype json_token = TStartObject | TEndObject | TName string | TString string

datatype error =
    DurationSecondsOutOfRange int
  | DurationNanosOutOfRange int
  | DurationSignsDoNotMatch
  | TimestampSecondsOutOfRange int
  | TimestampNanosOutOfRange int
  | FieldMaskInvalidPath string
  | FieldMaskIrreversible string
  | AnyTypeUrlNotSet
  | AnyUnableToResolve string error
  | AnyUnableToUnmarshal string error
  | ValueOneofNotSet
  | ValueInvalidNumber "64 word"
  | InvalidUTF8
  | Collaborator string

record encoder =
  out :: "json_token list"
  valid_utf8 :: "string \<Rightarrow> bool"

definition StartObject :: "encoder \<Rightarrow> encoder" where
  "StartObject e = e\<lparr>out := out e @ [TStartObject]\<rparr>"

definition EndObject :: "encoder \<Rightarrow> encoder" where
  "EndObject e = e\<lparr>out := out e @ [TEndObject]\<rparr>"

definition WriteName :: "encoder \<Rightarrow> string \<Rightarrow> encoder" where
  "WriteName e s = e\<lparr>out := out e @ [TName s]\<rparr>"

definition WriteString :: "encoder \<Rightarrow> string \<Rightarrow> encoder \<times> error option" where
  "WriteString e s =
     (e\<lparr>out := out e @ [TString s]\<rparr>, if valid_utf8 e s then None else Some InvalidUTF8)"

section \<open>Duration\<close>

record Duration =
  Duration_Seconds :: "64 word"
  Duration_Nanos :: "32 word"

definition secondsInNanos :: "64 word" where
  "secondsInNanos = 999999999"

definition maxSecondsInDuration :: "64 word" where
  "maxSecondsInDuration = 315576000000"

text \<open>
  \<^verbatim>\<open>marshalDuration\<close>. \<^verbatim>\<open>secs\<close> and \<^verbatim>\<open>nanos\<close> are \<^verbatim>\<open>int64\<close> (the nanos field is an
  \<^verbatim>\<open>int32\<close>, widened by \<^verbatim>\<open>Int()\<close>); comparisons are signed and \<^verbatim>\<open>-1*secs\<close> is a
  64-bit multiplication.
\<close>

definition marshalDuration :: "encoder \<Rightarrow> Duration \<Rightarrow> encoder \<times> error option" where
  "marshalDuration e m =
     (let secs = Duration_Seconds m;
          nanos = (scast (Duration_Nanos m) :: 64 word)
      in if secs <s - maxSecondsInDuration \<or> maxSecondsInDuration <s secs
         then (e, Some (DurationSecondsOutOfRange (sint secs)))
         else if nanos <s - secondsInNanos \<or> secondsInNanos <s nanos
         then (e, Some (DurationNanosOutOfRange (sint nanos)))
         else if (0 <s secs \<and> nanos <s 0) \<or> (secs <s 0 \<and> 0 <s nanos)
         then (e, Some DurationSignsDoNotMatch)
         else
           let (sign, secs, nanos) =
                 (if secs <s 0 \<or> nanos <s 0
                  then (''-'', - 1 * secs, - 1 * nanos)
                  else ([], secs, nanos));
               x = sign @ fmt_d (sint secs) @ ''.'' @ fmt_0d 9 (sint nanos);
               x = TrimSuffix x ''000'';
               x = TrimSuffix x ''000'';
               x = TrimSuffix x ''.000''
           in (fst (WriteString e (x @ ''s'')), None))"

text \<open>
  The text \<^verbatim>\<open>marshalDuration\<close> writes for a sign and two magnitudes: the formatted
  number, trimmed, and the suffix.
\<close>

definition duration_text :: "string \<Rightarrow> 64 word \<Rightarrow> 64 word \<Rightarrow> string" where
  "duration_text sign secs nanos =
     trim3 (sign @ fmt_d (sint secs) @ ''.'' @ fmt_0d 9 (sint nanos)) @ ''s''"

text \<open>The invariant the specification declares for a duration value.\<close>

definition Duration_invariant :: "Duration \<Rightarrow> bool" where
  "Duration_invariant m =
     (let secs = sint (Duration_Seconds m); nanos = sint (Duration_Nanos m)
      in \<bar>secs\<bar> \<le> 315576000000 \<and> \<bar>nanos\<bar> \<le> 999999999 \<and>
         \<not> (0 < secs \<and> nanos < 0) \<and> \<not> (secs < 0 \<and> 0 < nanos))"

section \<open>Timestamp\<close>

record Timestamp =
  Timestamp_Seconds :: "64 word"
  Timestamp_Nanos :: "32 word"

definition maxTimestampSeconds :: "64 word" where
  "maxTimestampSeconds = 253402300799"

definition minTimestampSeconds :: "64 word" where
  "minTimestampSeconds = - 62135596800"

text \<open>
  \<^verbatim>\<open>time.Unix(secs, nanos).UTC().Format("2006-01-02T15:04:05.000000000")\<close> is Go's
  library: the fields of the proleptic Gregorian calendar for an instant counted in
  seconds from 1970-01-01T00:00:00Z, each printed with zeros to its width. The date of a
  day number is computed era by era (an era is 400 years, 146097 days, and begins on a
  first of March).
\<close>

definition civil_from_days :: "int \<Rightarrow> int \<times> int \<times> int" where
  "civil_from_days days =
     (let z = days + 719468;
          era = z div 146097;
          doe = z - era * 146097;
          yoe = (doe - doe div 1460 + doe div 36524 - doe div 146096) div 365;
          doy = doe - (365 * yoe + yoe div 4 - yoe div 100);
          mp = (5 * doy + 2) div 153;
          d = doy - (153 * mp + 2) div 5 + 1;
          m = (if mp < 10 then mp + 3 else mp - 9);
          y = yoe + era * 400 + (if m \<le> 2 then 1 else 0)
      in (y, m, d))"

text \<open>The library's \<^verbatim>\<open>appendInt\<close>: a sign, then the digits padded with zeros to the width.\<close>

definition appendInt :: "int \<Rightarrow> nat \<Rightarrow> string" where
  "appendInt x width =
     (if x < 0 then ''-'' @ pad0 width (dec (nat (- x))) else pad0 width (dec (nat x)))"

definition time_Format :: "int \<Rightarrow> int \<Rightarrow> string" where
  "time_Format secs nanos =
     (let days = secs div 86400;
          rem = secs mod 86400;
          (y, m, d) = civil_from_days days
      in appendInt y 4 @ ''-'' @ appendInt m 2 @ ''-'' @ appendInt d 2 @ ''T'' @
         appendInt (rem div 3600) 2 @ '':'' @ appendInt (rem mod 3600 div 60) 2 @ '':'' @
         appendInt (rem mod 60) 2 @ ''.'' @ appendInt nanos 9)"

definition marshalTimestamp :: "encoder \<Rightarrow> Timestamp \<Rightarrow> encoder \<times> error option" where
  "marshalTimestamp e m =
     (let secs = Timestamp_Seconds m;
          nanos = (scast (Timestamp_Nanos m) :: 64 word)
      in if secs <s minTimestampSeconds \<or> maxTimestampSeconds <s secs
         then (e, Some (TimestampSecondsOutOfRange (sint secs)))
         else if nanos <s 0 \<or> secondsInNanos <s nanos
         then (e, Some (TimestampNanosOutOfRange (sint nanos)))
         else
           let x = time_Format (sint secs) (sint nanos);
               x = TrimSuffix x ''000'';
               x = TrimSuffix x ''000'';
               x = TrimSuffix x ''.000''
           in (fst (WriteString e (x @ ''Z'')), None))"

text \<open>The string \<^verbatim>\<open>marshalTimestamp\<close> writes for seconds and nanos in range.\<close>

definition timestamp_text :: "int \<Rightarrow> int \<Rightarrow> string" where
  "timestamp_text secs nanos = trim3 (time_Format secs nanos) @ ''Z''"

text \<open>The ranges the specification declares for a timestamp value.\<close>

definition Timestamp_invariant :: "Timestamp \<Rightarrow> bool" where
  "Timestamp_invariant m =
     (- 62135596800 \<le> sint (Timestamp_Seconds m) \<and> sint (Timestamp_Seconds m) \<le> 253402300799 \<and>
      0 \<le> sint (Timestamp_Nanos m) \<and> sint (Timestamp_Nanos m) \<le> 999999999)"

section \<open>Field mask\<close>

record FieldMask =
  FieldMask_Paths :: "string list"

text \<open>
  \<^verbatim>\<open>protoreflect.FullName(s).IsValid()\<close>, of the protobuf library: identifiers joined
  by single points, an identifier being a letter or underscore followed by letters,
  digits and underscores. \<^verbatim>\<open>consumeIdent\<close> returns the length of the identifier at the
  head of its argument, or -1.
\<close>

definition isLetter :: "char \<Rightarrow> bool" where
  "isLetter c = (c = CHR ''_'' \<or> (CHR ''a'' \<le> c \<and> c \<le> CHR ''z'') \<or> (CHR ''A'' \<le> c \<and> c \<le> CHR ''Z''))"

definition isLetterDigit :: "char \<Rightarrow> bool" where
  "isLetterDigit c = (isLetter c \<or> (CHR ''0'' \<le> c \<and> c \<le> CHR ''9''))"

definition consumeIdent :: "string \<Rightarrow> int" where
  "consumeIdent s =
     (case s of
        [] \<Rightarrow> - 1
      | c # r \<Rightarrow> if isLetter c then 1 + int (length (takeWhile isLetterDigit r)) else - 1)"

function IsValid_loop :: "string \<Rightarrow> bool" where
  "IsValid_loop rest =
     (case rest of
        [] \<Rightarrow> True
      | c # r \<Rightarrow>
          if c \<noteq> CHR ''.'' then False
          else let n = consumeIdent r
               in if n < 0 then False else IsValid_loop (drop (nat n) r))"
  by pat_completeness auto
termination
  by (relation "measure length") auto

declare IsValid_loop.simps [simp del]

definition IsValid :: "string \<Rightarrow> bool" where
  "IsValid s =
     (let i = consumeIdent s
      in if i < 0 then False else IsValid_loop (drop (nat i) s))"

text \<open>\<^verbatim>\<open>strings.Join\<close>.\<close>

fun Join :: "string list \<Rightarrow> string \<Rightarrow> string" where
  "Join [] sep = []"
| "Join [a] sep = a"
| "Join (a # b # r) sep = a @ sep @ Join (b # r) sep"

text \<open>
  \<^verbatim>\<open>marshalFieldMask\<close>: the loop over the paths with its accumulator \<^verbatim>\<open>paths\<close>; the
  first path that fails a check ends the loop with its error.
\<close>

fun marshalFieldMask_loop :: "string list \<Rightarrow> string list \<Rightarrow> error + string list" where
  "marshalFieldMask_loop [] paths = Inr paths"
| "marshalFieldMask_loop (s # list) paths =
     (if \<not> IsValid s then Inl (FieldMaskInvalidPath s)
      else let cc = JSONCamelCase s
           in if s \<noteq> JSONSnakeCase cc then Inl (FieldMaskIrreversible s)
              else marshalFieldMask_loop list (paths @ [cc]))"

definition marshalFieldMask :: "encoder \<Rightarrow> FieldMask \<Rightarrow> encoder \<times> error option" where
  "marshalFieldMask e m =
     (case marshalFieldMask_loop (FieldMask_Paths m) [] of
        Inl err \<Rightarrow> (e, Some err)
      | Inr paths \<Rightarrow> (fst (WriteString e (Join paths '','')), None))"

text \<open>A path the encoder accepts: valid, and the same after camel case and back.\<close>

definition path_ok :: "string \<Rightarrow> bool" where
  "path_ok p = (IsValid p \<and> JSONSnakeCase (JSONCamelCase p) = p)"

definition path_error :: "string \<Rightarrow> error" where
  "path_error p = (if IsValid p then FieldMaskIrreversible p else FieldMaskInvalidPath p)"

section \<open>Well-known type dispatcher\<close>

text \<open>
  \<^verbatim>\<open>wellKnownTypeMarshaler\<close> returns one of nine marshal functions or nil; here it
  returns which one. \<^verbatim>\<open>Parent\<close> and \<^verbatim>\<open>Name\<close> of a full name split it at its last
  point. The \<^verbatim>\<open>genid\<close> constants are not among the sources: their values are the names
  protobuf gives the package and its messages.
\<close>

datatype well_known =
    WK_Any | WK_Timestamp | WK_Duration | WK_WrapperType | WK_Struct | WK_ListValue
  | WK_KnownValue | WK_FieldMask | WK_Empty

definition LastIndexByte :: "string \<Rightarrow> char \<Rightarrow> int" where
  "LastIndexByte s c =
     (if c \<in> set s then int (length s) - 1 - int (length (takeWhile (\<lambda>x. x \<noteq> c) (rev s)))
      else - 1)"

definition Parent :: "string \<Rightarrow> string" where
  "Parent n = (let i = LastIndexByte n (CHR ''.'') in if 0 \<le> i then take (nat i) n else [])"

definition Name :: "string \<Rightarrow> string" where
  "Name n = (let i = LastIndexByte n (CHR ''.'') in if 0 \<le> i then drop (nat (i + 1)) n else n)"

definition wellKnownTypeMarshaler :: "string \<Rightarrow> well_known option" where
  "wellKnownTypeMarshaler name =
     (if Parent name = ''google.protobuf'' then
        (let n = Name name
         in if n = ''Any'' then Some WK_Any
            else if n = ''Timestamp'' then Some WK_Timestamp
            else if n = ''Duration'' then Some WK_Duration
            else if n \<in> set [''BoolValue'', ''Int32Value'', ''Int64Value'', ''UInt32Value'',
                      ''UInt64Value'', ''FloatValue'', ''DoubleValue'', ''StringValue'',
                      ''BytesValue''] then Some WK_WrapperType
            else if n = ''Struct'' then Some WK_Struct
            else if n = ''ListValue'' then Some WK_ListValue
            else if n = ''Value'' then Some WK_KnownValue
            else if n = ''FieldMask'' then Some WK_FieldMask
            else if n = ''Empty'' then Some WK_Empty
            else None)
      else None)"

section \<open>Any\<close>

text \<open>
  An Any message has a type URL and a value. \<^verbatim>\<open>m.Has\<close> tells whether a field is set and
  \<^verbatim>\<open>m.Get\<close> returns its value, the empty string for a field that is not set: a field
  is its value when set, or nothing. (For a field without explicit presence, set means
  not empty: such a message never holds a set empty field. With explicit presence it
  may.) The resolver, the binary decoder, the call of the marshal function the
  dispatcher chose and the generic \<^verbatim>\<open>marshalMessage\<close> are collaborators of
  \<^verbatim>\<open>marshalAny\<close> that the sources do not hold: they are fields of a record the function
  takes. The deferred \<^verbatim>\<open>EndObject\<close> runs on every return after \<^verbatim>\<open>StartObject\<close>.
\<close>

record AnyMessage =
  Any_TypeUrl :: "string option"
  Any_Value :: "string option"

definition Has_Any_TypeUrl :: "AnyMessage \<Rightarrow> bool" where
  "Has_Any_TypeUrl m = (Any_TypeUrl m \<noteq> None)"

definition Has_Any_Value :: "AnyMessage \<Rightarrow> bool" where
  "Has_Any_Value m = (Any_Value m \<noteq> None)"

definition Get_Any_TypeUrl :: "AnyMessage \<Rightarrow> string" where
  "Get_Any_TypeUrl m = (case Any_TypeUrl m of None \<Rightarrow> [] | Some s \<Rightarrow> s)"

definition Get_Any_Value :: "AnyMessage \<Rightarrow> string" where
  "Get_Any_Value m = (case Any_Value m of None \<Rightarrow> [] | Some b \<Rightarrow> b)"

record ('mt, 'em) any_collaborators =
  FindMessageByURL :: "string \<Rightarrow> error + 'mt"
  proto_Unmarshal :: "'mt \<Rightarrow> string \<Rightarrow> error + 'em"
  Descriptor_FullName :: "'mt \<Rightarrow> string"
  call_marshal :: "well_known \<Rightarrow> encoder \<Rightarrow> 'em \<Rightarrow> encoder \<times> error option"
  marshalMessage :: "encoder \<Rightarrow> 'em \<Rightarrow> string \<Rightarrow> encoder \<times> error option"

definition marshalAny ::
    "('mt, 'em) any_collaborators \<Rightarrow> encoder \<Rightarrow> AnyMessage \<Rightarrow> encoder \<times> error option" where
  "marshalAny c e m =
     (if \<not> Has_Any_TypeUrl m then
        (if \<not> Has_Any_Value m then (EndObject (StartObject e), None)
         else (e, Some AnyTypeUrlNotSet))
      else
        let typeURL = Get_Any_TypeUrl m
        in case FindMessageByURL c typeURL of
             Inl err \<Rightarrow> (e, Some (AnyUnableToResolve typeURL err))
           | Inr emt \<Rightarrow>
               (case proto_Unmarshal c emt (Get_Any_Value m) of
                  Inl err \<Rightarrow> (e, Some (AnyUnableToUnmarshal typeURL err))
                | Inr em \<Rightarrow>
                    (case wellKnownTypeMarshaler (Descriptor_FullName c emt) of
                       Some marshal \<Rightarrow>
                         (let e1 = WriteName (StartObject e) ''@type'';
                              (e2, err) = WriteString e1 typeURL
                          in case err of
                               Some x \<Rightarrow> (EndObject e2, Some x)
                             | None \<Rightarrow>
                                 (let (e3, err') = call_marshal c marshal (WriteName e2 ''value'') em
                                  in (EndObject e3, err')))
                     | None \<Rightarrow> marshalMessage c e em typeURL)))"

section \<open>Value\<close>

text \<open>
  A Value message is a oneof: \<^verbatim>\<open>WhichOneof\<close> returns the arm that is set, or nil. A
  \<^verbatim>\<open>float64\<close> is its 64 bits: sign, eleven bits of exponent and 52 of mantissa;
  \<^verbatim>\<open>math.IsNaN\<close> and \<^verbatim>\<open>math.IsInf(v, 0)\<close> read them. \<^verbatim>\<open>marshalSingular\<close> is not among
  the sources and is a parameter.
\<close>

datatype Value_Kind =
    NullValue
  | NumberValue "64 word"
  | StringValue string
  | BoolValue bool
  | StructValue "(string \<times> ValueMessage) list"
  | ListValue "ValueMessage list"
and ValueMessage = ValueMessage (WhichOneof: "Value_Kind option")

definition float_exponent :: "64 word \<Rightarrow> nat" where
  "float_exponent v = unat (drop_bit 52 v) mod 2048"

definition float_mantissa :: "64 word \<Rightarrow> nat" where
  "float_mantissa v = unat v mod 2 ^ 52"

definition IsNaN :: "64 word \<Rightarrow> bool" where
  "IsNaN v = (float_exponent v = 2047 \<and> float_mantissa v \<noteq> 0)"

definition IsInf :: "64 word \<Rightarrow> bool" where
  "IsInf v = (float_exponent v = 2047 \<and> float_mantissa v = 0)"

definition is_NumberValue :: "Value_Kind \<Rightarrow> bool" where
  "is_NumberValue fd = (case fd of NumberValue v \<Rightarrow> True | _ \<Rightarrow> False)"

definition Float :: "Value_Kind \<Rightarrow> 64 word" where
  "Float fd = (case fd of NumberValue v \<Rightarrow> v | _ \<Rightarrow> 0)"

definition marshalKnownValue ::
    "(encoder \<Rightarrow> Value_Kind \<Rightarrow> encoder \<times> error option) \<Rightarrow> encoder \<Rightarrow> ValueMessage \<Rightarrow>
     encoder \<times> error option" where
  "marshalKnownValue marshalSingular e m =
     (case WhichOneof m of
        None \<Rightarrow> (e, Some ValueOneofNotSet)
      | Some fd \<Rightarrow>
          if is_NumberValue fd \<and> (IsNaN (Float fd) \<or> IsInf (Float fd))
          then (e, Some (ValueInvalidNumber (Float fd)))
          else marshalSingular e fd)"

section \<open>The JSONPb marshaler\<close>

text \<open>
  \<^verbatim>\<open>v.(proto.Message)\<close> asks whether the value is a protobuf message: a value is one
  or the other. \<^verbatim>\<open>json.Marshal\<close>, \<^verbatim>\<open>json.Unmarshal\<close>, the decoder's \<^verbatim>\<open>Decode\<close> into a
  raw message, \<^verbatim>\<open>MarshalOptions.Marshal\<close> and \<^verbatim>\<open>UnmarshalOptions.Unmarshal\<close> are called,
  not defined, in the sources: they are fields of a record. A writer is its contents and
  its \<^verbatim>\<open>Write\<close>; a \<^verbatim>\<open>bytes.Buffer\<close> appends and never fails. Unmarshaling returns the
  value it wrote into, with the error.
\<close>

datatype ('g, 'p) interface = ProtoMessage 'p | Other 'g

record ('g, 'p) jsonpb_collaborators =
  json_Marshal :: "'g \<Rightarrow> error + string"
  json_Unmarshal :: "string \<Rightarrow> 'g \<Rightarrow> 'g \<times> error option"
  json_Decode :: "string \<Rightarrow> error + string"
  MarshalOptions_Marshal :: "'p \<Rightarrow> error + string"
  UnmarshalOptions_Unmarshal :: "string \<Rightarrow> 'p \<Rightarrow> 'p \<times> error option"

definition Buffer_Write :: "string \<Rightarrow> string \<Rightarrow> string \<times> error option" where
  "Buffer_Write buf b = (buf @ b, None)"

definition marshalTo ::
    "('g, 'p) jsonpb_collaborators \<Rightarrow> ('w \<Rightarrow> string \<Rightarrow> 'w \<times> error option) \<Rightarrow> 'w \<Rightarrow>
     ('g, 'p) interface \<Rightarrow> 'w \<times> error option" where
  "marshalTo j Write w v =
     (case v of
        Other g \<Rightarrow>
          (case json_Marshal j g of
             Inl err \<Rightarrow> (w, Some err)
           | Inr buf \<Rightarrow> Write w buf)
      | ProtoMessage p \<Rightarrow>
          (case MarshalOptions_Marshal j p of
             Inl err \<Rightarrow> (w, Some err)
           | Inr b \<Rightarrow> Write w b))"

definition Marshal :: "('g, 'p) jsonpb_collaborators \<Rightarrow> ('g, 'p) interface \<Rightarrow> error + string" where
  "Marshal j v =
     (case v of
        Other g \<Rightarrow> json_Marshal j g
      | ProtoMessage p \<Rightarrow>
          (let (buf, err) = marshalTo j Buffer_Write [] v
           in case err of Some x \<Rightarrow> Inl x | None \<Rightarrow> Inr buf))"

definition unmarshalJSONPb ::
    "('g, 'p) jsonpb_collaborators \<Rightarrow> string \<Rightarrow> ('g, 'p) interface \<Rightarrow>
     ('g, 'p) interface \<times> error option" where
  "unmarshalJSONPb j data v =
     (case v of
        Other g \<Rightarrow> (let (g', err) = json_Unmarshal j data g in (Other g', err))
      | ProtoMessage p \<Rightarrow>
          (case json_Decode j data of
             Inl err \<Rightarrow> (v, Some err)
           | Inr b \<Rightarrow>
               (let (p', err) = UnmarshalOptions_Unmarshal j b p in (ProtoMessage p', err))))"

definition Unmarshal ::
    "('g, 'p) jsonpb_collaborators \<Rightarrow> string \<Rightarrow> ('g, 'p) interface \<Rightarrow>
     ('g, 'p) interface \<times> error option" where
  "Unmarshal j data v = unmarshalJSONPb j data v"

text \<open>
  \<^verbatim>\<open>json.Marshal\<close> of Go's library on the values the repository's test marshals: a
  signed 64-bit integer is its decimal digits, as a JSON number, and a struct is an
  object of its exported fields, each under its Go name in double quotes. Field names
  are Go identifiers of ASCII letters, digits and underscores; a field is exported when
  its name begins with an upper-case letter.
\<close>

datatype go_value =
    GoInt64 "64 word"
  | GoStruct "(string \<times> go_value) list"

definition quoted :: "string \<Rightarrow> string" where
  "quoted s = [CHR 0x22] @ s @ [CHR 0x22]"

fun go_json :: "go_value \<Rightarrow> string"
  and go_json_fields :: "(string \<times> go_value) list \<Rightarrow> string list" where
  "go_json (GoInt64 n) = fmt_d (sint n)"
| "go_json (GoStruct fs) = ''{'' @ Join (go_json_fields fs) '','' @ ''}''"
| "go_json_fields [] = []"
| "go_json_fields (f # fs) =
     (if fst f \<noteq> [] \<and> isASCIIUpper (hd (fst f))
      then [quoted (fst f) @ '':'' @ go_json (snd f)] @ go_json_fields fs
      else go_json_fields fs)"


section \<open>Properties of the name converter\<close>

lemma lower_codes:
  "isASCIILower c \<longleftrightarrow> 97 \<le> (of_char c :: nat) \<and> (of_char c :: nat) \<le> 122"
  by (simp add: isASCIILower_def less_eq_char_def)

lemma upper_codes:
  "isASCIIUpper c \<longleftrightarrow> 65 \<le> (of_char c :: nat) \<and> (of_char c :: nat) \<le> 90"
  by (simp add: isASCIIUpper_def less_eq_char_def)

lemma digit_codes:
  "isASCIIDigit c \<longleftrightarrow> 48 \<le> (of_char c :: nat) \<and> (of_char c :: nat) \<le> 57"
  by (simp add: isASCIIDigit_def less_eq_char_def)

lemma underscore_code: "c = CHR ''_'' \<longleftrightarrow> (of_char c :: nat) = 95"
proof -
  have "(of_char (CHR ''_'') :: nat) = 95" by simp
  then show ?thesis by (metis of_char_eq_iff)
qed

lemma of_char_byte_add:
  "(of_char (byte_add c k) :: nat) = nat ((int (of_char c) + k) mod 256)"
proof -
  have "(of_char (byte_add c k) :: nat) = nat (of_char (byte_add c k) :: int)"
    by simp
  also have "\<dots> = nat (((of_char c :: int) + k) mod 256)"
    by (simp only: byte_add_def of_char_of)
  also have "(of_char c :: int) = int (of_char c)"
    by (simp add: of_nat_of_char)
  finally show ?thesis .
qed

lemma to_upper_code:
  "isASCIILower c \<Longrightarrow> (of_char (byte_add c (- 32)) :: nat) = of_char c - 32"
  unfolding lower_codes of_char_byte_add by auto

lemma to_lower_code:
  "isASCIIUpper c \<Longrightarrow> (of_char (byte_add c 32) :: nat) = of_char c + 32"
  unfolding upper_codes of_char_byte_add
  by (auto simp: nat_add_distrib nat_mod_distrib)

lemma to_upper_is_upper: "isASCIILower c \<Longrightarrow> isASCIIUpper (byte_add c (- 32))"
proof -
  assume l: "isASCIILower c"
  show ?thesis
    using to_upper_code [OF l] l unfolding upper_codes lower_codes by arith
qed

lemma to_lower_to_upper: "isASCIILower c \<Longrightarrow> byte_add (byte_add c (- 32)) 32 = c"
proof -
  assume l: "isASCIILower c"
  have u: "isASCIIUpper (byte_add c (- 32))"
    by (rule to_upper_is_upper [OF l])
  have "(of_char (byte_add (byte_add c (- 32)) 32) :: nat) = of_char c"
    using to_lower_code [OF u] to_upper_code [OF l] l unfolding lower_codes by arith
  then show ?thesis by simp
qed

lemma upper_not_underscore: "isASCIIUpper c \<Longrightarrow> c \<noteq> CHR ''_''"
  unfolding upper_codes underscore_code by arith

lemma lower_not_underscore: "isASCIILower c \<Longrightarrow> c \<noteq> CHR ''_''"
  unfolding lower_codes underscore_code by arith

lemma camel_byte_not_underscore: "snd pc \<noteq> CHR ''_'' \<Longrightarrow> camel_byte pc \<noteq> CHR ''_''"
  using upper_not_underscore [OF to_upper_is_upper, of "snd pc"]
  by (auto simp: camel_byte_def)

text \<open>Only whether the byte before is an underscore matters to the closed form.\<close>

lemma camel_prev_irrelevant:
  "(p = CHR ''_'') = (q = CHR ''_'') \<Longrightarrow>
   map camel_byte (filter (\<lambda>pc. snd pc \<noteq> CHR ''_'') (zip (p # s) s)) =
   map camel_byte (filter (\<lambda>pc. snd pc \<noteq> CHR ''_'') (zip (q # s) s))"
  by (cases s) (auto simp: camel_byte_def)

lemma JSONCamelCase_loop_closed:
  "JSONCamelCase_loop s w b =
     b @ map camel_byte (filter (\<lambda>pc. snd pc \<noteq> CHR ''_'')
           (zip ((if w then CHR ''_'' else CHR ''x'') # s) s))"
proof (induction s arbitrary: w b)
  case Nil
  show ?case by simp
next
  case (Cons c s)
  let ?c' = "if c \<noteq> CHR ''_'' \<and> w \<and> isASCIILower c then byte_add c (- 32) else c"
  have flag: "(?c' = CHR ''_'') = (c = CHR ''_'')"
    using upper_not_underscore [OF to_upper_is_upper, of c] by auto
  have step: "JSONCamelCase_loop (c # s) w b =
      JSONCamelCase_loop s (c = CHR ''_'') (if c \<noteq> CHR ''_'' then b @ [?c'] else b)"
    using flag by (simp add: Let_def)
  have tl: "map camel_byte (filter (\<lambda>pc. snd pc \<noteq> CHR ''_'')
              (zip ((if c = CHR ''_'' then CHR ''_'' else CHR ''x'') # s) s)) =
            map camel_byte (filter (\<lambda>pc. snd pc \<noteq> CHR ''_'') (zip (c # s) s))"
    by (rule camel_prev_irrelevant) simp
  show ?case
    unfolding step Cons.IH tl
    by (auto simp: camel_byte_def)
qed

lemma camel_closed_no_underscore: "CHR ''_'' \<notin> set (camel_closed s)"
proof
  assume "CHR ''_'' \<in> set (camel_closed s)"
  then obtain pc where pc: "snd pc \<noteq> CHR ''_''" "camel_byte pc = CHR ''_''"
    by (auto simp: camel_closed_def)
  then show False
    using camel_byte_not_underscore [of pc] by simp
qed

text \<open>
  Claim C2, as the code has it: \<^verbatim>\<open>JSONCamelCase\<close> drops every underscore of its input,
  whatever follows it, so its output holds no underscore at all; the byte after an
  underscore is upper-cased when it is a lower-case ASCII letter and copied unchanged
  otherwise.
\<close>

theorem JSONCamelCase_drops_every_underscore:
  "JSONCamelCase s = camel_closed s \<and> CHR ''_'' \<notin> set (JSONCamelCase s)"
proof -
  have eq: "JSONCamelCase s = camel_closed s"
    by (simp add: JSONCamelCase_def camel_closed_def JSONCamelCase_loop_closed)
  show ?thesis
    using eq camel_closed_no_underscore [of s] by simp
qed

text \<open>
  The claim as the specification words it fails: in \<^verbatim>\<open>"x_1_"\<close> the first underscore is
  followed by a digit and the second is a lone trailing one, and both are dropped.
\<close>

theorem JSONCamelCase_underscore_not_preserved:
  "JSONCamelCase ''x_1_'' = ''x1''"
  by (simp add: JSONCamelCase_def Let_def isASCIILower_def)

section \<open>The matcher decides the language\<close>

lemma nullable_iff: "nullable r \<longleftrightarrow> [] \<in> lang r"
  by (induction r) (auto intro: star_empty)

lemma star_cons_elim:
  assumes "x \<in> star A" and "x = a # w"
  shows "\<exists>u v. w = u @ v \<and> a # u \<in> A \<and> v \<in> star A"
  using assms
proof (induction arbitrary: w rule: star.induct)
  case star_empty
  then show ?case by simp
next
  case (star_step u v)
  show ?case
  proof (cases u)
    case Nil
    with star_step show ?thesis by simp
  next
    case (Cons b u')
    with star_step.prems have "b = a" and "w = u' @ v" by simp_all
    with Cons star_step.hyps show ?thesis by blast
  qed
qed

lemma star_cons: "a # w \<in> star A \<longleftrightarrow> (\<exists>u v. w = u @ v \<and> a # u \<in> A \<and> v \<in> star A)"
proof
  assume "a # w \<in> star A"
  then show "\<exists>u v. w = u @ v \<and> a # u \<in> A \<and> v \<in> star A"
    by (rule star_cons_elim) simp
next
  assume "\<exists>u v. w = u @ v \<and> a # u \<in> A \<and> v \<in> star A"
  then obtain u v where "w = u @ v" "a # u \<in> A" "v \<in> star A" by blast
  then show "a # w \<in> star A"
    using star_step [of "a # u" A v] by simp
qed

lemma lang_deriv: "w \<in> lang (deriv a r) \<longleftrightarrow> a # w \<in> lang r"
proof (induction r arbitrary: w)
  case (Seq r s)
  then show ?case
    by (auto simp: nullable_iff Cons_eq_append_conv)
next
  case (Star r)
  then show ?case
    by (auto simp: star_cons)
qed auto

lemma matches_iff: "matches r w \<longleftrightarrow> w \<in> lang r"
  by (induction w arbitrary: r) (simp_all add: nullable_iff lang_deriv)

section \<open>Words of the contract's languages\<close>


lemma lang_digit_re: "lang digit_re = {[c] | c. isASCIIDigit c}"
  by (simp add: digit_re_def isASCIIDigit_def)

lemma lang_Seq_digit:
  "w \<in> lang (Seq digit_re r) \<longleftrightarrow> (\<exists>c t. w = c # t \<and> isASCIIDigit c \<and> t \<in> lang r)"
proof
  assume "w \<in> lang (Seq digit_re r)"
  then show "\<exists>c t. w = c # t \<and> isASCIIDigit c \<and> t \<in> lang r"
    by (auto simp: lang_digit_re)
next
  assume "\<exists>c t. w = c # t \<and> isASCIIDigit c \<and> t \<in> lang r"
  then obtain c t where w: "w = [c] @ t" and "isASCIIDigit c" and t: "t \<in> lang r"
    by auto
  then have "[c] \<in> lang digit_re" by (simp add: lang_digit_re)
  then show "w \<in> lang (Seq digit_re r)"
    unfolding w lang.simps using t by blast
qed

lemma lang_rep_digit: "lang (rep n digit_re) = {s. length s = n \<and> digits s}"
proof (induction n)
  case 0
  show ?case by (auto simp: digits_def)
next
  case (Suc n)
  show ?case
  proof (rule set_eqI)
    fix s
    show "s \<in> lang (rep (Suc n) digit_re) \<longleftrightarrow> s \<in> {s. length s = Suc n \<and> digits s}"
    proof (cases s)
      case Nil
      then show ?thesis by (auto simp: Suc lang_digit_re digits_def)
    next
      case (Cons a t)
      have "a # t \<in> lang (rep (Suc n) digit_re) \<longleftrightarrow> isASCIIDigit a \<and> t \<in> lang (rep n digit_re)"
        unfolding rep.simps lang_Seq_digit by simp
      then show ?thesis
        using Cons by (auto simp: Suc digits_def)
    qed
  qed
qed

lemma digits_star: "digits s \<Longrightarrow> s \<in> star (lang digit_re)"
proof (induction s)
  case Nil
  show ?case by (rule star_empty)
next
  case (Cons c s)
  then have "[c] \<in> lang digit_re" and "s \<in> star (lang digit_re)"
    by (simp_all add: lang_digit_re digits_def)
  then have "[c] @ s \<in> star (lang digit_re)" by (rule star_step)
  then show ?case by simp
qed

lemma lang_plus1_digit: "s \<noteq> [] \<Longrightarrow> digits s \<Longrightarrow> s \<in> lang (plus1 digit_re)"
proof (cases s)
  case Nil
  assume "s \<noteq> []" with Nil show ?thesis by simp
next
  case (Cons c t)
  assume "digits s"
  with Cons have c: "[c] \<in> lang digit_re" and "digits t"
    by (simp_all add: lang_digit_re digits_def)
  then have t: "t \<in> star (lang digit_re)"
    by (simp add: digits_star)
  have "[c] @ t \<in> lang (plus1 digit_re)"
    unfolding plus1_def lang.simps using c t by blast
  with Cons show ?thesis by simp
qed

lemma lang_fraction:
  "fr = [] \<or> (\<exists>ds. fr = CHR ''.'' # ds \<and> digits ds \<and> length ds \<in> {3, 6, 9})
   \<Longrightarrow> fr \<in> lang fraction_re"
  by (auto simp: fraction_re_def opt_def lang_rep_digit)

lemma lang_duration:
  assumes "sg = [] \<or> sg = ''-''" and "ip \<noteq> []" and "digits ip" and "fr \<in> lang fraction_re"
  shows "sg @ ip @ fr @ ''s'' \<in> lang duration_re"
proof -
  have 1: "sg \<in> lang (opt (Byte (CHR ''-'')))"
    using assms(1) by (auto simp: opt_def)
  have 2: "ip \<in> lang (plus1 digit_re)"
    using assms(2,3) by (rule lang_plus1_digit)
  have 3: "fr @ ''s'' \<in> lang (Seq fraction_re (Byte (CHR ''s'')))"
    using assms(4) by simp
  have 4: "ip @ fr @ ''s'' \<in> lang (Seq (plus1 digit_re) (Seq fraction_re (Byte (CHR ''s''))))"
    using 2 3 unfolding lang.simps(6) [of "plus1 digit_re"] by blast
  show ?thesis
    unfolding duration_re_def lang.simps(6) [of "opt (Byte (CHR ''-''))"]
    using 1 4 by blast
qed

section \<open>Properties of formatting and trimming\<close>

lemma digit_table: "k < 10 \<Longrightarrow> isASCIIDigit (''0123456789'' ! k)"
proof -
  assume "k < 10"
  then have "k = 0 \<or> k = 1 \<or> k = 2 \<or> k = 3 \<or> k = 4 \<or> k = 5 \<or> k = 6 \<or> k = 7 \<or> k = 8 \<or> k = 9"
    by arith
  then show ?thesis
    by (elim disjE) (simp_all add: isASCIIDigit_def)
qed

lemma dec_digits: "digits (dec n)"
proof (induction n rule: dec.induct)
  case (1 n)
  show ?case
  proof (cases "n < 10")
    case True
    then show ?thesis
      by (subst dec.simps) (simp add: digits_def digit_table)
  next
    case False
    then have "digits (dec (n div 10))" by (rule "1.IH")
    moreover have "isASCIIDigit (''0123456789'' ! (n mod 10))"
      by (rule digit_table) simp
    ultimately show ?thesis
      using False by (subst dec.simps) (simp add: digits_def)
  qed
qed

lemma dec_not_empty: "dec n \<noteq> []"
  by (subst dec.simps) simp

lemma dec_length: "n < 10 ^ k \<Longrightarrow> 0 < k \<Longrightarrow> length (dec n) \<le> k"
proof (induction n arbitrary: k rule: dec.induct)
  case (1 n)
  show ?case
  proof (cases "n < 10")
    case True
    then show ?thesis
      using "1.prems" by (subst dec.simps) simp
  next
    case False
    obtain j where k: "k = Suc j"
      using "1.prems"(2) by (cases k) auto
    have "0 < j"
    proof (rule ccontr)
      assume "\<not> 0 < j"
      with k "1.prems"(1) False show False by simp
    qed
    moreover have "n div 10 < 10 ^ j"
      using "1.prems"(1) k by (simp add: less_mult_imp_div_less mult.commute)
    ultimately have "length (dec (n div 10)) \<le> j"
      using "1.IH" [OF False] by blast
    then show ?thesis
      using False k by (subst dec.simps) simp
  qed
qed

lemma fmt_0d_nanos:
  assumes "0 \<le> k" and "k \<le> 999999999"
  shows "length (fmt_0d 9 k) = 9 \<and> digits (fmt_0d 9 k)"
proof -
  have "nat k < 10 ^ 9" using assms by simp
  then have len: "length (dec (nat k)) \<le> 9"
    by (rule dec_length) simp
  have "fmt_0d 9 k = replicate (9 - length (dec (nat k))) (CHR ''0'') @ dec (nat k)"
    using assms(1) by (simp add: fmt_0d_def pad0_def)
  moreover have "isASCIIDigit (CHR ''0'')" by (simp add: isASCIIDigit_def)
  ultimately show ?thesis
    using len dec_digits [of "nat k"] by (auto simp: digits_def list_all_iff)
qed

lemma TrimSuffix_append:
  "length c = length suffix \<Longrightarrow> TrimSuffix (p @ c) suffix = (if c = suffix then p else p @ c)"
  by (simp add: TrimSuffix_def HasSuffix_def)


lemma trim3_cases:
  assumes len: "length f = 9" and dig: "digits f"
  shows "\<exists>fr. trim3 (p @ CHR ''.'' # f) = p @ fr \<and>
           (fr = [] \<or> (\<exists>ds. fr = CHR ''.'' # ds \<and> digits ds \<and> length ds \<in> {3, 6, 9}))"
proof -
  define a where "a = take 3 f"
  define b where "b = take 3 (drop 3 f)"
  define c where "c = drop 6 f"
  have f: "f = a @ b @ c"
    unfolding a_def b_def c_def
    by (metis append_take_drop_id drop_drop numeral_Bit0 numeral_Bit1 add.commute
          one_plus_numeral semiring_norm(3,4,5) numeral_One)
  have la: "length a = 3" and lb: "length b = 3" and lc: "length c = 3"
    using len by (simp_all add: a_def b_def c_def)
  have da: "digits a" and db: "digits b" and dc: "digits c"
    using dig unfolding f digits_def by simp_all
  show ?thesis
  proof (cases "c = ''000''")
    case False
    have 1: "TrimSuffix (p @ CHR ''.'' # f) ''000'' = p @ CHR ''.'' # f"
      using TrimSuffix_append [of c "''000''" "p @ ''.'' @ a @ b"] lc False
      by (simp add: f)
    obtain b1 b2 b3 where b: "b = [b1, b2, b3]"
      using lb by (auto simp: length_Suc_conv numeral_3_eq_3)
    have 3: "TrimSuffix (p @ CHR ''.'' # f) ''.000'' = p @ CHR ''.'' # f"
      using TrimSuffix_append [of "b3 # c" "''.000''" "p @ ''.'' @ a @ [b1, b2]"] lc False
      by (simp add: f b)
    have "trim3 (p @ CHR ''.'' # f) = p @ (CHR ''.'' # f)"
      by (simp add: trim3_def 1 3)
    then show ?thesis
      using len dig by blast
  next
    case c0: True
    have 1: "TrimSuffix (p @ CHR ''.'' # f) ''000'' = p @ CHR ''.'' # a @ b"
      using TrimSuffix_append [of c "''000''" "p @ ''.'' @ a @ b"] lc c0
      by (simp add: f)
    show ?thesis
    proof (cases "b = ''000''")
      case False
      have 2: "TrimSuffix (p @ CHR ''.'' # a @ b) ''000'' = p @ CHR ''.'' # a @ b"
        using TrimSuffix_append [of b "''000''" "p @ ''.'' @ a"] lb False
        by simp
      obtain a1 a2 a3 where a: "a = [a1, a2, a3]"
        using la by (auto simp: length_Suc_conv numeral_3_eq_3)
      have 3: "TrimSuffix (p @ CHR ''.'' # a @ b) ''.000'' = p @ CHR ''.'' # a @ b"
        using TrimSuffix_append [of "a3 # b" "''.000''" "p @ [CHR ''.'', a1, a2]"] lb False
        by (simp add: a)
      have "trim3 (p @ CHR ''.'' # f) = p @ (CHR ''.'' # (a @ b))"
        by (simp add: trim3_def 1 2 3)
      moreover have "digits (a @ b)" and "length (a @ b) = 6"
        using da db la lb by (simp_all add: digits_def)
      ultimately show ?thesis by blast
    next
      case b0: True
      have 2: "TrimSuffix (p @ CHR ''.'' # a @ b) ''000'' = p @ CHR ''.'' # a"
        using TrimSuffix_append [of b "''000''" "p @ ''.'' @ a"] lb b0
        by simp
      have 3: "TrimSuffix (p @ CHR ''.'' # a) ''.000'' = (if a = ''000'' then p else p @ CHR ''.'' # a)"
        using TrimSuffix_append [of "''.'' @ a" "''.000''" p] la
        by simp
      have "trim3 (p @ CHR ''.'' # f) = (if a = ''000'' then p @ [] else p @ (CHR ''.'' # a))"
        by (simp add: trim3_def 1 2 3)
      then show ?thesis
        using da la by (cases "a = ''000''") auto
    qed
  qed
qed

section \<open>Properties of the duration encoder\<close>

lemma sint_scast_32_64: "sint (scast (w :: 32 word) :: 64 word) = sint w"
  by (rule sint_up_scast) (simp add: is_up)

lemma sint_neg_64: "- (2 ^ 63) < sint (a :: 64 word) \<Longrightarrow> sint (- 1 * a) = - sint a"
proof -
  assume "- (2 ^ 63) < sint a"
  moreover have "sint a < 2 ^ 63"
    using sint_lt [of a] by simp
  ultimately have "signed_take_bit 63 (- sint a) = - sint a"
    by (simp add: signed_take_bit_int_eq_self)
  then show ?thesis
    by (simp add: sint_word_minus)
qed

lemma sint_nanos_bounds: "- (2 ^ 31) \<le> sint (w :: 32 word) \<and> sint w < 2 ^ 31"
  using sint_ge [of w] sint_lt [of w] by simp


lemma duration_text_matches:
  assumes "sg = [] \<or> sg = ''-''" and "0 \<le> sint secs" and "0 \<le> sint nanos"
    and "sint nanos \<le> 999999999"
  shows "duration_text sg secs nanos \<in> lang duration_re"
proof -
  let ?ip = "dec (nat (sint secs))"
  let ?f = "fmt_0d 9 (sint nanos)"
  have f: "length ?f = 9" "digits ?f"
    using fmt_0d_nanos [OF assms(3,4)] by simp_all
  have "fmt_d (sint secs) = ?ip"
    using assms(2) by (simp add: fmt_d_def)
  then have "sg @ fmt_d (sint secs) @ ''.'' @ ?f = (sg @ ?ip) @ ''.'' @ ?f"
    by simp
  then obtain fr where tr: "trim3 (sg @ fmt_d (sint secs) @ ''.'' @ ?f) = (sg @ ?ip) @ fr"
    and fr: "fr = [] \<or> (\<exists>ds. fr = CHR ''.'' # ds \<and> digits ds \<and> length ds \<in> {3, 6, 9})"
    using trim3_cases [OF f, of "sg @ ?ip"] by auto
  have "fr \<in> lang fraction_re"
    using fr by (rule lang_fraction)
  then have "sg @ ?ip @ fr @ ''s'' \<in> lang duration_re"
    using assms(1) dec_not_empty dec_digits by (intro lang_duration)
  then show ?thesis
    unfolding duration_text_def tr by simp
qed

lemma marshalDuration_valid:
  assumes inv: "Duration_invariant m"
  shows "\<exists>sg secs nanos. marshalDuration e m =
            (e\<lparr>out := out e @ [TString (duration_text sg secs nanos)]\<rparr>, None) \<and>
          (sg = [] \<or> sg = ''-'') \<and> 0 \<le> sint secs \<and> 0 \<le> sint nanos \<and> sint nanos \<le> 999999999"
proof -
  define S where "S = sint (Duration_Seconds m)"
  define N where "N = sint (Duration_Nanos m)"
  define nanos where "nanos = (scast (Duration_Nanos m) :: 64 word)"
  have N: "sint nanos = N"
    by (simp add: nanos_def N_def sint_scast_32_64)
  have bS: "- 315576000000 \<le> S" "S \<le> 315576000000"
    and bN: "- 999999999 \<le> N" "N \<le> 999999999"
    and sg: "\<not> (0 < S \<and> N < 0)" "\<not> (S < 0 \<and> 0 < N)"
    using inv by (auto simp: Duration_invariant_def S_def N_def Let_def)
  have c1: "\<not> (Duration_Seconds m <s - maxSecondsInDuration \<or> maxSecondsInDuration <s Duration_Seconds m)"
    using bS by (simp add: word_sless_alt maxSecondsInDuration_def S_def)
  have c2: "\<not> (nanos <s - secondsInNanos \<or> secondsInNanos <s nanos)"
    using bN by (simp add: word_sless_alt secondsInNanos_def N)
  have c3: "\<not> ((0 <s Duration_Seconds m \<and> nanos <s 0) \<or> (Duration_Seconds m <s 0 \<and> 0 <s nanos))"
    using sg by (simp add: word_sless_alt N S_def [symmetric])
  have neg: "(Duration_Seconds m <s 0 \<or> nanos <s 0) \<longleftrightarrow> (S < 0 \<or> N < 0)"
    by (simp add: word_sless_alt N S_def)
  show ?thesis
  proof (cases "S < 0 \<or> N < 0")
    case True
    have eq: "marshalDuration e m =
        (e\<lparr>out := out e @ [TString (duration_text ''-'' (- 1 * Duration_Seconds m) (- 1 * nanos))]\<rparr>, None)"
      using c1 c2 c3 True neg
      by (simp add: marshalDuration_def Let_def nanos_def [symmetric] duration_text_def
            trim3_def WriteString_def)
    have "sint (- 1 * Duration_Seconds m) = - S"
      using bS(1) unfolding S_def by (intro sint_neg_64) simp
    moreover have "sint (- 1 * nanos) = - N"
      using bN(1) N by (subst sint_neg_64) simp_all
    ultimately have "(''-'' = [] \<or> ''-'' = ''-'') \<and> 0 \<le> sint (- 1 * Duration_Seconds m) \<and>
        0 \<le> sint (- 1 * nanos) \<and> sint (- 1 * nanos) \<le> 999999999"
      using True sg bS bN by auto
    with eq show ?thesis by blast
  next
    case False
    have eq: "marshalDuration e m =
        (e\<lparr>out := out e @ [TString (duration_text [] (Duration_Seconds m) nanos)]\<rparr>, None)"
      using c1 c2 c3 False neg
      by (simp add: marshalDuration_def Let_def nanos_def [symmetric] duration_text_def
            trim3_def WriteString_def)
    have "([] = [] \<or> [] = ''-'') \<and> 0 \<le> sint (Duration_Seconds m) \<and>
        0 \<le> sint nanos \<and> sint nanos \<le> 999999999"
      using False bN N by (auto simp: S_def)
    with eq show ?thesis by blast
  qed
qed

lemma dec_Suc_0: "dec (Suc 0) = ''1''" by (simp add: dec.simps)
lemma dec_0: "dec 0 = ''0''" by (simp add: dec.simps)
lemma dec_500000000: "dec 500000000 = ''500000000''" by (simp add: dec.simps)
lemma dec_12: "dec 12 = ''12''" by (simp add: dec.simps)
lemma dec_340000000: "dec 340000000 = ''340000000''" by (simp add: dec.simps)

lemma fmt_0d_9_0: "fmt_0d 9 0 = ''000000000''"
  by (simp add: fmt_0d_def pad0_def dec_0 eval_nat_numeral)

lemma fmt_0d_9_500000000: "fmt_0d 9 500000000 = ''500000000''"
  by (simp add: fmt_0d_def pad0_def dec_500000000)

lemma fmt_0d_9_340000000: "fmt_0d 9 340000000 = ''340000000''"
  by (simp add: fmt_0d_def pad0_def dec_340000000)

lemmas duration_checks = marshalDuration_def Let_def word_sless_alt maxSecondsInDuration_def
  secondsInNanos_def
lemmas formats = fmt_0d_9_0 fmt_0d_9_500000000 fmt_0d_9_340000000 fmt_d_def dec_Suc_0 dec_0 dec_12
lemmas trims = TrimSuffix_def HasSuffix_def

lemma marshalDuration_1_500: "marshalDuration e \<lparr>Duration_Seconds = 1, Duration_Nanos = 500000000\<rparr> =
         (e\<lparr>out := out e @ [TString ''1.500s'']\<rparr>, None)"
  apply (simp add: duration_checks)
  apply (simp add: formats)
  apply (simp add: trims)
  apply (simp add: WriteString_def)
  done

lemma marshalDuration_0: "marshalDuration e \<lparr>Duration_Seconds = 0, Duration_Nanos = 0\<rparr> =
         (e\<lparr>out := out e @ [TString ''0s'']\<rparr>, None)"
  apply (simp add: duration_checks)
  apply (simp add: formats)
  apply (simp add: trims)
  apply (simp add: WriteString_def)
  done

lemma marshalDuration_neg_1_500: "marshalDuration e \<lparr>Duration_Seconds = - 1, Duration_Nanos = - 500000000\<rparr> =
         (e\<lparr>out := out e @ [TString ''-1.500s'']\<rparr>, None)"
  apply (simp add: duration_checks)
  apply (simp add: formats)
  apply (simp add: trims)
  apply (simp add: WriteString_def)
  done

lemma marshalDuration_seconds_too_large: "marshalDuration e \<lparr>Duration_Seconds = 315576000001, Duration_Nanos = 0\<rparr> =
         (e, Some (DurationSecondsOutOfRange 315576000001))"
  by (simp add: duration_checks)

lemma marshalDuration_sign_mismatch: "marshalDuration e \<lparr>Duration_Seconds = 1, Duration_Nanos = - 1\<rparr> =
         (e, Some DurationSignsDoNotMatch)"
  by (simp add: duration_checks)

lemma matches_neg_1_500: "matches duration_re ''-1.500s''"
  by (simp add: duration_re_def fraction_re_def opt_def plus1_def digit_re_def eval_nat_numeral)

lemma Duration_invariant_12_340: "Duration_invariant \<lparr>Duration_Seconds = 12, Duration_Nanos = 340000000\<rparr>"
  by (simp add: Duration_invariant_def)

lemma marshalDuration_error_iff:
  "snd (marshalDuration e m) \<noteq> None \<longleftrightarrow> \<not> Duration_invariant m"
proof (cases "Duration_invariant m")
  case True
  then show ?thesis
    using marshalDuration_valid [OF True, of e] by auto
next
  case False
  define S where "S = sint (Duration_Seconds m)"
  define N where "N = sint (Duration_Nanos m)"
  have "S < - 315576000000 \<or> 315576000000 < S \<or> N < - 999999999 \<or> 999999999 < N \<or>
        (0 < S \<and> N < 0) \<or> (S < 0 \<and> 0 < N)"
    using False by (auto simp: Duration_invariant_def Let_def S_def N_def)
  then have "snd (marshalDuration e m) \<noteq> None"
    by (auto simp: duration_checks sint_scast_32_64 S_def N_def)
  with False show ?thesis by simp
qed

section \<open>Claims about the duration encoder\<close>

text \<open>
  Claim C1. For every duration that satisfies the declared invariant, \<^verbatim>\<open>marshalDuration\<close>
  succeeds and writes one string, and that string matches
  \<^verbatim>\<open>^-?[0-9]+(\.[0-9]{3}|\.[0-9]{6}|\.[0-9]{9})?s$\<close>: the three trimming steps leave
  0, 3, 6 or 9 fractional digits. In particular (1, 500000000) gives \<^verbatim>\<open>1.500s\<close>,
  (0, 0) gives \<^verbatim>\<open>0s\<close> and (-1, -500000000) gives \<^verbatim>\<open>-1.500s\<close>.
\<close>

theorem marshalDuration_matches_duration_re:
  "(Duration_invariant m \<longrightarrow>
      (\<exists>x. marshalDuration e m = (e\<lparr>out := out e @ [TString x]\<rparr>, None) \<and>
           matches duration_re x)) \<and>
   marshalDuration e \<lparr>Duration_Seconds = 1, Duration_Nanos = 500000000\<rparr> =
     (e\<lparr>out := out e @ [TString ''1.500s'']\<rparr>, None) \<and>
   marshalDuration e \<lparr>Duration_Seconds = 0, Duration_Nanos = 0\<rparr> =
     (e\<lparr>out := out e @ [TString ''0s'']\<rparr>, None) \<and>
   marshalDuration e \<lparr>Duration_Seconds = - 1, Duration_Nanos = - 500000000\<rparr> =
     (e\<lparr>out := out e @ [TString ''-1.500s'']\<rparr>, None)"
proof -
  have general: "\<exists>x. marshalDuration e m = (e\<lparr>out := out e @ [TString x]\<rparr>, None) \<and>
      matches duration_re x" if inv: "Duration_invariant m"
  proof -
    obtain sg secs nanos where
      eq: "marshalDuration e m =
             (e\<lparr>out := out e @ [TString (duration_text sg secs nanos)]\<rparr>, None)"
      and sg: "sg = [] \<or> sg = ''-''"
      and bounds: "0 \<le> sint secs" "0 \<le> sint nanos" "sint nanos \<le> 999999999"
      using marshalDuration_valid [OF inv, of e] by blast
    have "matches duration_re (duration_text sg secs nanos)"
      using duration_text_matches [OF sg bounds] by (simp add: matches_iff)
    with eq show ?thesis by blast
  qed
  show ?thesis
    using general marshalDuration_1_500 [of e] marshalDuration_0 [of e]
      marshalDuration_neg_1_500 [of e]
    by blast
qed

theorem marshalDuration_matches_duration_re_witness:
  "Duration_invariant \<lparr>Duration_Seconds = 12, Duration_Nanos = 340000000\<rparr> \<and>
   (\<exists>x. marshalDuration \<lparr>out = [], valid_utf8 = (\<lambda>s. True)\<rparr>
            \<lparr>Duration_Seconds = 12, Duration_Nanos = 340000000\<rparr> =
          (\<lparr>out = [TString x], valid_utf8 = (\<lambda>s. True)\<rparr>, None) \<and>
        matches duration_re x)"
  using marshalDuration_matches_duration_re
    [of "\<lparr>Duration_Seconds = 12, Duration_Nanos = 340000000\<rparr>"
        "\<lparr>out = [], valid_utf8 = (\<lambda>s. True)\<rparr>"]
    Duration_invariant_12_340
  by simp

text \<open>
  Claim C5. \<^verbatim>\<open>marshalDuration\<close> returns an error if and only if seconds is outside
  [-315576000000, 315576000000], or nanos is outside [-999999999, 999999999], or the two
  have strictly conflicting signs. Seconds 315576000001 gives the range error, which
  carries the value, and (1, -1) gives the sign error.
\<close>

theorem marshalDuration_error_iff_invalid:
  "(snd (marshalDuration e m) \<noteq> None) =
     (sint (Duration_Seconds m) < - 315576000000 \<or> 315576000000 < sint (Duration_Seconds m) \<or>
      sint (Duration_Nanos m) < - 999999999 \<or> 999999999 < sint (Duration_Nanos m) \<or>
      (0 < sint (Duration_Seconds m) \<and> sint (Duration_Nanos m) < 0) \<or>
      (sint (Duration_Seconds m) < 0 \<and> 0 < sint (Duration_Nanos m))) \<and>
   marshalDuration e \<lparr>Duration_Seconds = 315576000001, Duration_Nanos = 0\<rparr> =
     (e, Some (DurationSecondsOutOfRange 315576000001)) \<and>
   marshalDuration e \<lparr>Duration_Seconds = 1, Duration_Nanos = - 1\<rparr> =
     (e, Some DurationSignsDoNotMatch)"
proof -
  have "(\<not> Duration_invariant m) =
     (sint (Duration_Seconds m) < - 315576000000 \<or> 315576000000 < sint (Duration_Seconds m) \<or>
      sint (Duration_Nanos m) < - 999999999 \<or> 999999999 < sint (Duration_Nanos m) \<or>
      (0 < sint (Duration_Seconds m) \<and> sint (Duration_Nanos m) < 0) \<or>
      (sint (Duration_Seconds m) < 0 \<and> 0 < sint (Duration_Nanos m)))"
    by (auto simp: Duration_invariant_def Let_def)
  then show ?thesis
    using marshalDuration_error_iff [of e m] marshalDuration_seconds_too_large [of e]
      marshalDuration_sign_mismatch [of e]
    by simp
qed

theorem marshalDuration_error_iff_invalid_witness:
  "snd (marshalDuration \<lparr>out = [], valid_utf8 = (\<lambda>s. True)\<rparr>
          \<lparr>Duration_Seconds = 0, Duration_Nanos = 1000000000\<rparr>) \<noteq> None"
  using marshalDuration_error_iff_invalid
    [of "\<lparr>out = [], valid_utf8 = (\<lambda>s. True)\<rparr>"
        "\<lparr>Duration_Seconds = 0, Duration_Nanos = 1000000000\<rparr>"]
  by simp

section \<open>Properties of the field-mask encoder\<close>

lemma marshalFieldMask_loop_ok:
  "\<forall>p\<in>set ps. path_ok p \<Longrightarrow>
   marshalFieldMask_loop ps paths = Inr (paths @ map JSONCamelCase ps)"
  by (induction ps arbitrary: paths) (simp_all add: path_ok_def Let_def)

lemma marshalFieldMask_loop_first_bad:
  "\<forall>q\<in>set good. path_ok q \<Longrightarrow> \<not> path_ok p \<Longrightarrow>
   marshalFieldMask_loop (good @ p # list) paths = Inl (path_error p)"
proof (induction good arbitrary: paths)
  case Nil
  then show ?case by (auto simp: path_ok_def path_error_def Let_def)
next
  case (Cons a good)
  then show ?case by (simp add: path_ok_def Let_def)
qed

lemma marshalFieldMask_ok:
  assumes "\<forall>p\<in>set (FieldMask_Paths m). path_ok p"
  shows "marshalFieldMask e m =
    (e\<lparr>out := out e @ [TString (Join (map JSONCamelCase (FieldMask_Paths m)) '','')]\<rparr>, None)"
  using marshalFieldMask_loop_ok [OF assms, of "[]"]
  by (simp add: marshalFieldMask_def WriteString_def)

lemma marshalFieldMask_bad:
  assumes "\<not> (\<forall>p\<in>set (FieldMask_Paths m). path_ok p)"
  shows "\<exists>p\<in>set (FieldMask_Paths m). \<not> path_ok p \<and> marshalFieldMask e m = (e, Some (path_error p))"
proof -
  from assms have "\<exists>p\<in>set (FieldMask_Paths m). \<not> path_ok p" by blast
  then obtain good p list where split: "FieldMask_Paths m = good @ p # list"
    and bad: "\<not> path_ok p" and good: "\<forall>q\<in>set good. \<not> \<not> path_ok q"
    using split_list_first_prop [of "FieldMask_Paths m" "\<lambda>p. \<not> path_ok p"] by blast
  from good have "\<forall>q\<in>set good. path_ok q" by simp
  from marshalFieldMask_loop_first_bad [OF this bad, of list "[]"] split
  have "marshalFieldMask e m = (e, Some (path_error p))"
    by (simp add: marshalFieldMask_def)
  with split bad show ?thesis by auto
qed

lemma IsValid_foo_bar: "IsValid ''foo_bar''"
  by (simp add: IsValid_def consumeIdent_def isLetter_def isLetterDigit_def IsValid_loop.simps)

lemma IsValid_foo__bar: "IsValid ''foo__bar''"
  by (simp add: IsValid_def consumeIdent_def isLetter_def isLetterDigit_def IsValid_loop.simps)

lemma IsValid_a_b_c: "IsValid ''a.b_c''"
  by (simp add: IsValid_def consumeIdent_def isLetter_def isLetterDigit_def IsValid_loop.simps)

lemma camel_foo_bar: "JSONCamelCase ''foo_bar'' = ''fooBar''"
  by (simp add: JSONCamelCase_def isASCIILower_def byte_add_def char_of_def Let_def)

lemma camel_foo__bar: "JSONCamelCase ''foo__bar'' = ''fooBar''"
  by (simp add: JSONCamelCase_def isASCIILower_def byte_add_def char_of_def Let_def)

lemma snake_fooBar: "JSONSnakeCase ''fooBar'' = ''foo_bar''"
  by (simp add: JSONSnakeCase_def isASCIIUpper_def byte_add_def char_of_def Let_def)

lemma camel_a_b_c: "JSONCamelCase ''a.b_c'' = ''a.bC''"
  by (simp add: JSONCamelCase_def isASCIILower_def byte_add_def char_of_def Let_def)

lemma snake_a_bC: "JSONSnakeCase ''a.bC'' = ''a.b_c''"
  by (simp add: JSONSnakeCase_def isASCIIUpper_def byte_add_def char_of_def Let_def)

lemma marshalFieldMask_foo_bar:
  "marshalFieldMask e \<lparr>FieldMask_Paths = [''foo_bar'']\<rparr> =
     (e\<lparr>out := out e @ [TString ''fooBar'']\<rparr>, None)"
  by (simp add: marshalFieldMask_def IsValid_foo_bar camel_foo_bar snake_fooBar WriteString_def)

lemma marshalFieldMask_foo__bar:
  "marshalFieldMask e \<lparr>FieldMask_Paths = [''foo__bar'']\<rparr> =
     (e, Some (FieldMaskIrreversible ''foo__bar''))"
  by (simp add: marshalFieldMask_def IsValid_foo__bar camel_foo__bar snake_fooBar)

lemma path_ok_foo_bar: "path_ok ''foo_bar''"
  by (simp add: path_ok_def IsValid_foo_bar camel_foo_bar snake_fooBar)

lemma path_ok_a_b_c: "path_ok ''a.b_c''"
  by (simp add: path_ok_def IsValid_a_b_c camel_a_b_c snake_a_bC)

text \<open>
  Claim C4. When every path of a field mask is a valid field name and survives the
  conversion to camel case and back, \<^verbatim>\<open>marshalFieldMask\<close> succeeds and writes one
  string: the camel-case forms of the paths, in order, joined by commas. When some path
  is invalid or not reversible, it fails, writes nothing, and the error carries an
  offending path. The paths \<^verbatim>\<open>["foo_bar"]\<close> give \<^verbatim>\<open>fooBar\<close>; \<^verbatim>\<open>["foo__bar"]\<close> is
  rejected as irreversible.
\<close>

theorem marshalFieldMask_camel_or_error:
  "((\<forall>p\<in>set (FieldMask_Paths m). path_ok p) \<longrightarrow>
      marshalFieldMask e m =
        (e\<lparr>out := out e @ [TString (Join (map JSONCamelCase (FieldMask_Paths m)) '','')]\<rparr>,
         None)) \<and>
   (\<not> (\<forall>p\<in>set (FieldMask_Paths m). path_ok p) \<longrightarrow>
      (\<exists>p\<in>set (FieldMask_Paths m).
          \<not> path_ok p \<and> marshalFieldMask e m = (e, Some (path_error p)))) \<and>
   marshalFieldMask e \<lparr>FieldMask_Paths = [''foo_bar'']\<rparr> =
     (e\<lparr>out := out e @ [TString ''fooBar'']\<rparr>, None) \<and>
   marshalFieldMask e \<lparr>FieldMask_Paths = [''foo__bar'']\<rparr> =
     (e, Some (FieldMaskIrreversible ''foo__bar''))"
  using marshalFieldMask_ok [of m e] marshalFieldMask_bad [of m e]
    marshalFieldMask_foo_bar [of e] marshalFieldMask_foo__bar [of e]
  by blast

theorem marshalFieldMask_camel_or_error_witness:
  "path_ok ''foo_bar'' \<and> path_ok ''a.b_c'' \<and>
   marshalFieldMask \<lparr>out = [], valid_utf8 = (\<lambda>s. True)\<rparr>
       \<lparr>FieldMask_Paths = [''foo_bar'', ''a.b_c'']\<rparr> =
     (\<lparr>out = [TString ''fooBar,a.bC''], valid_utf8 = (\<lambda>s. True)\<rparr>, None)"
  using marshalFieldMask_camel_or_error
    [of "\<lparr>FieldMask_Paths = [''foo_bar'', ''a.b_c'']\<rparr>"
        "\<lparr>out = [], valid_utf8 = (\<lambda>s. True)\<rparr>"]
    path_ok_foo_bar path_ok_a_b_c
  by (simp add: camel_foo_bar camel_a_b_c)

section \<open>Properties of the Any and Value encoders\<close>

text \<open>
  Claim C6. For an Any message with neither the type URL nor the value set,
  \<^verbatim>\<open>marshalAny\<close> succeeds and writes exactly the empty object: a start-object and an
  end-object token. With the value set and the type URL not set it returns the
  missing-type-URL error and writes nothing.
\<close>

theorem marshalAny_empty_or_missing_type_url:
  "(\<not> Has_Any_TypeUrl m \<and> \<not> Has_Any_Value m \<longrightarrow>
      marshalAny c e m = (e\<lparr>out := out e @ [TStartObject, TEndObject]\<rparr>, None)) \<and>
   (\<not> Has_Any_TypeUrl m \<and> Has_Any_Value m \<longrightarrow>
      marshalAny c e m = (e, Some AnyTypeUrlNotSet))"
  by (simp add: marshalAny_def StartObject_def EndObject_def)

theorem marshalAny_empty_or_missing_type_url_witness:
  "\<not> Has_Any_TypeUrl \<lparr>Any_TypeUrl = None, Any_Value = None\<rparr> \<and>
   \<not> Has_Any_Value \<lparr>Any_TypeUrl = None, Any_Value = None\<rparr> \<and>
   marshalAny
     \<lparr>FindMessageByURL = (\<lambda>u. Inl (Collaborator u) :: error + unit),
      proto_Unmarshal = (\<lambda>t b. Inr () :: error + unit),
      Descriptor_FullName = (\<lambda>t. []),
      call_marshal = (\<lambda>k e em. (e, None)),
      marshalMessage = (\<lambda>e em u. (e, None))\<rparr>
     \<lparr>out = [], valid_utf8 = (\<lambda>s. True)\<rparr>
     \<lparr>Any_TypeUrl = None, Any_Value = None\<rparr> =
     (\<lparr>out = [TStartObject, TEndObject], valid_utf8 = (\<lambda>s. True)\<rparr>, None) \<and>
   \<not> Has_Any_TypeUrl \<lparr>Any_TypeUrl = None, Any_Value = Some ''x''\<rparr> \<and>
   Has_Any_Value \<lparr>Any_TypeUrl = None, Any_Value = Some ''x''\<rparr> \<and>
   marshalAny
     \<lparr>FindMessageByURL = (\<lambda>u. Inl (Collaborator u) :: error + unit),
      proto_Unmarshal = (\<lambda>t b. Inr () :: error + unit),
      Descriptor_FullName = (\<lambda>t. []),
      call_marshal = (\<lambda>k e em. (e, None)),
      marshalMessage = (\<lambda>e em u. (e, None))\<rparr>
     \<lparr>out = [], valid_utf8 = (\<lambda>s. True)\<rparr>
     \<lparr>Any_TypeUrl = None, Any_Value = Some ''x''\<rparr> =
     (\<lparr>out = [], valid_utf8 = (\<lambda>s. True)\<rparr>, Some AnyTypeUrlNotSet)"
  using marshalAny_empty_or_missing_type_url
    [of "\<lparr>Any_TypeUrl = None, Any_Value = None\<rparr>"
        "\<lparr>FindMessageByURL = (\<lambda>u. Inl (Collaborator u) :: error + unit),
      proto_Unmarshal = (\<lambda>t b. Inr () :: error + unit),
      Descriptor_FullName = (\<lambda>t. []),
      call_marshal = (\<lambda>k e em. (e, None)),
      marshalMessage = (\<lambda>e em u. (e, None))\<rparr>"
        "\<lparr>out = [], valid_utf8 = (\<lambda>s. True)\<rparr>"]
    marshalAny_empty_or_missing_type_url
    [of "\<lparr>Any_TypeUrl = None, Any_Value = Some ''x''\<rparr>"
        "\<lparr>FindMessageByURL = (\<lambda>u. Inl (Collaborator u) :: error + unit),
      proto_Unmarshal = (\<lambda>t b. Inr () :: error + unit),
      Descriptor_FullName = (\<lambda>t. []),
      call_marshal = (\<lambda>k e em. (e, None)),
      marshalMessage = (\<lambda>e em u. (e, None))\<rparr>"
        "\<lparr>out = [], valid_utf8 = (\<lambda>s. True)\<rparr>"]
  by (simp add: Has_Any_TypeUrl_def Has_Any_Value_def)

lemma IsNaN_quiet: "IsNaN 0x7FF8000000000000"
  by (simp add: IsNaN_def float_exponent_def float_mantissa_def drop_bit_eq_div)

lemma IsInf_positive: "IsInf 0x7FF0000000000000"
  by (simp add: IsInf_def float_exponent_def float_mantissa_def drop_bit_eq_div)

lemma IsInf_negative: "IsInf 0xFFF0000000000000"
  by (simp add: IsInf_def float_exponent_def float_mantissa_def drop_bit_eq_div)

lemma finite_one: "\<not> IsNaN 0x3FF0000000000000 \<and> \<not> IsInf 0x3FF0000000000000"
  by (simp add: IsNaN_def IsInf_def float_exponent_def float_mantissa_def drop_bit_eq_div)

text \<open>
  Claim C7. For a Value message with no arm of the oneof set, \<^verbatim>\<open>marshalKnownValue\<close>
  returns an error. When the number arm is set and the number is NaN or an infinity, it
  returns an error and writes nothing. In every other case the result is that of
  \<^verbatim>\<open>marshalSingular\<close> on the arm that is set.
\<close>

theorem marshalKnownValue_cases:
  "(WhichOneof m = None \<longrightarrow> marshalKnownValue marshalSingular e m = (e, Some ValueOneofNotSet)) \<and>
   (WhichOneof m = Some (NumberValue v) \<and> (IsNaN v \<or> IsInf v) \<longrightarrow>
      marshalKnownValue marshalSingular e m = (e, Some (ValueInvalidNumber v))) \<and>
   (WhichOneof m = Some fd \<and> \<not> (\<exists>x. fd = NumberValue x \<and> (IsNaN x \<or> IsInf x)) \<longrightarrow>
      marshalKnownValue marshalSingular e m = marshalSingular e fd)"
  by (cases fd) (auto simp: marshalKnownValue_def is_NumberValue_def Float_def)

theorem marshalKnownValue_cases_witness:
  "marshalKnownValue (\<lambda>e fd. (WriteName e ''x'', None)) \<lparr>out = [], valid_utf8 = (\<lambda>s. True)\<rparr>
      (ValueMessage None) = (\<lparr>out = [], valid_utf8 = (\<lambda>s. True)\<rparr>, Some ValueOneofNotSet) \<and>
   IsNaN 0x7FF8000000000000 \<and>
   marshalKnownValue (\<lambda>e fd. (WriteName e ''x'', None)) \<lparr>out = [], valid_utf8 = (\<lambda>s. True)\<rparr>
      (ValueMessage (Some (NumberValue 0x7FF8000000000000))) =
     (\<lparr>out = [], valid_utf8 = (\<lambda>s. True)\<rparr>, Some (ValueInvalidNumber 0x7FF8000000000000)) \<and>
   marshalKnownValue (\<lambda>e fd. (WriteName e ''x'', None)) \<lparr>out = [], valid_utf8 = (\<lambda>s. True)\<rparr>
      (ValueMessage (Some (BoolValue True))) =
     (\<lparr>out = [TName ''x''], valid_utf8 = (\<lambda>s. True)\<rparr>, None)"
  using marshalKnownValue_cases
    [of "ValueMessage None" "\<lambda>e fd. (WriteName e ''x'', None)"
        "\<lparr>out = [], valid_utf8 = (\<lambda>s. True)\<rparr>"]
    marshalKnownValue_cases
    [of "ValueMessage (Some (NumberValue 0x7FF8000000000000))"
        "\<lambda>e fd. (WriteName e ''x'', None)"
        "\<lparr>out = [], valid_utf8 = (\<lambda>s. True)\<rparr>" "0x7FF8000000000000"]
    marshalKnownValue_cases
    [of "ValueMessage (Some (BoolValue True))"
        "\<lambda>e fd. (WriteName e ''x'', None)"
        "\<lparr>out = [], valid_utf8 = (\<lambda>s. True)\<rparr>" _ "BoolValue True"]
    IsNaN_quiet
  by (simp add: WriteName_def)

section \<open>Properties of the JSONPb marshaler\<close>

lemma Marshal_Other: "Marshal j (Other g) = json_Marshal j g"
  by (simp add: Marshal_def)

lemma Marshal_ProtoMessage: "Marshal j (ProtoMessage p) = MarshalOptions_Marshal j p"
  by (cases "MarshalOptions_Marshal j p") (simp_all add: Marshal_def marshalTo_def Buffer_Write_def)

lemma Unmarshal_Other:
  "Unmarshal j data (Other g) =
     (Other (fst (json_Unmarshal j data g)), snd (json_Unmarshal j data g))"
  by (simp add: Unmarshal_def unmarshalJSONPb_def split_beta)

lemma Unmarshal_ProtoMessage:
  "Unmarshal j data (ProtoMessage p) =
     (case json_Decode j data of
        Inl err \<Rightarrow> (ProtoMessage p, Some err)
      | Inr b \<Rightarrow> (ProtoMessage (fst (UnmarshalOptions_Unmarshal j b p)),
                  snd (UnmarshalOptions_Unmarshal j b p)))"
  by (simp add: Unmarshal_def unmarshalJSONPb_def split_beta split: sum.splits)

lemma dec_2_54: "dec 18014398509481984 = ''18014398509481984''"
  by (simp add: dec.simps)

lemma isASCIIUpper_M: "isASCIIUpper CHR ''M''"
  by (simp add: upper_codes)

lemma go_json_ManagerId:
  "go_json (GoStruct [(''ManagerId'', GoInt64 18014398509481984)]) =
     ''{'' @ quoted ''ManagerId'' @ '':18014398509481984}''"
  by (simp add: fmt_d_def dec_2_54 isASCIIUpper_M)

text \<open>
  Claim C10. For a value that is not a protobuf message, \<^verbatim>\<open>Marshal\<close> returns what
  \<^verbatim>\<open>json.Marshal\<close> returns and \<^verbatim>\<open>Unmarshal\<close> does what \<^verbatim>\<open>json.Unmarshal\<close> does; neither
  result depends on the protobuf marshal or unmarshal options. For a protobuf message
  \<^verbatim>\<open>Marshal\<close> returns what \<^verbatim>\<open>MarshalOptions.Marshal\<close> returns, and \<^verbatim>\<open>Unmarshal\<close> decodes
  one raw JSON value and hands it to \<^verbatim>\<open>UnmarshalOptions.Unmarshal\<close>.
\<close>

theorem Marshal_non_proto_is_json_Marshal:
  "Marshal j (Other g) = json_Marshal j g \<and>
   Unmarshal j data (Other g) =
     (Other (fst (json_Unmarshal j data g)), snd (json_Unmarshal j data g)) \<and>
   Marshal (j\<lparr>MarshalOptions_Marshal := mo\<rparr>) (Other g) = Marshal j (Other g) \<and>
   Unmarshal (j\<lparr>UnmarshalOptions_Unmarshal := uo\<rparr>) data (Other g) = Unmarshal j data (Other g) \<and>
   Marshal j (ProtoMessage p) = MarshalOptions_Marshal j p \<and>
   Unmarshal j data (ProtoMessage p) =
     (case json_Decode j data of
        Inl err \<Rightarrow> (ProtoMessage p, Some err)
      | Inr b \<Rightarrow> (ProtoMessage (fst (UnmarshalOptions_Unmarshal j b p)),
                  snd (UnmarshalOptions_Unmarshal j b p)))"
  by (simp add: Marshal_Other Marshal_ProtoMessage Unmarshal_Other Unmarshal_ProtoMessage)



section \<open>Properties of the timestamp encoder\<close>

lemma div_bounds:
  fixes x k :: int
  assumes "0 < k"
  shows "k * (x div k) \<le> x" and "x < k * (x div k) + k"
  using pos_mod_bound [OF assms, of x] pos_mod_sign [OF assms, of x] mult_div_mod_eq [of k x]
  by linarith+

lemma day_from_month_bounds:
  fixes doy :: int
  defines "mp \<equiv> (5 * doy + 2) div 153"
  shows "1 \<le> doy - (153 * mp + 2) div 5 + 1" and "doy - (153 * mp + 2) div 5 + 1 \<le> 31"
proof -
  have a: "153 * mp \<le> 5 * doy + 2" "5 * doy + 2 < 153 * mp + 153"
    unfolding mp_def using div_bounds [of 153 "5 * doy + 2"] by simp_all
  have b: "5 * ((153 * mp + 2) div 5) \<le> 153 * mp + 2"
          "153 * mp + 2 < 5 * ((153 * mp + 2) div 5) + 5"
    using div_bounds [of 5 "153 * mp + 2"] by simp_all
  show "1 \<le> doy - (153 * mp + 2) div 5 + 1" using a b by linarith
  show "doy - (153 * mp + 2) div 5 + 1 \<le> 31" using a b by linarith
qed

lemma civil_from_days_bounds:
  assumes lo: "- 719162 \<le> days" and hi: "days \<le> 2932896"
  shows "\<exists>y m d. civil_from_days days = (y, m, d) \<and>
           0 \<le> y \<and> y \<le> 9999 \<and> 0 \<le> m \<and> m \<le> 99 \<and> 0 \<le> d \<and> d \<le> 99"
proof -
  define z where "z = days + 719468"
  define era where "era = z div 146097"
  define doe where "doe = z - era * 146097"
  define a where "a = doe div 1460"
  define b where "b = doe div 36524"
  define c where "c = doe div 146096"
  define N where "N = doe - a + b - c"
  define yoe where "yoe = N div 365"
  define q4 where "q4 = yoe div 4"
  define q100 where "q100 = yoe div 100"
  define doy where "doy = doe - (365 * yoe + q4 - q100)"
  define mp where "mp = (5 * doy + 2) div 153"
  define d where "d = doy - (153 * mp + 2) div 5 + 1"
  define m where "m = (if mp < 10 then mp + 3 else mp - 9)"
  define y where "y = yoe + era * 400 + (if m \<le> 2 then 1 else 0)"
  have cfd: "civil_from_days days = (y, m, d)"
    unfolding civil_from_days_def Let_def y_def m_def d_def mp_def doy_def q4_def q100_def
      yoe_def N_def a_def b_def c_def doe_def era_def z_def
    by (rule refl)
  have z: "306 \<le> z" "z \<le> 3652364" using lo hi by (simp_all add: z_def)
  have era: "146097 * era \<le> z" "z < 146097 * era + 146097"
    unfolding era_def using div_bounds [of 146097 z] by simp_all
  have era_b: "0 \<le> era" "era \<le> 24" using era z by linarith+
  have doe: "0 \<le> doe" "doe \<le> 146096" using era by (simp_all add: doe_def)
  have doe24: "era = 24 \<Longrightarrow> doe \<le> 146036" using z by (simp add: doe_def)
  have a: "1460 * a \<le> doe" "doe < 1460 * a + 1460"
    unfolding a_def using div_bounds [of 1460 doe] by simp_all
  have b: "36524 * b \<le> doe" "doe < 36524 * b + 36524"
    unfolding b_def using div_bounds [of 36524 doe] by simp_all
  have c: "146096 * c \<le> doe" "doe < 146096 * c + 146096"
    unfolding c_def using div_bounds [of 146096 doe] by simp_all
  have yoe: "365 * yoe \<le> N" "N < 365 * yoe + 365"
    unfolding yoe_def using div_bounds [of 365 N] by simp_all
  have q4: "4 * q4 \<le> yoe" "yoe < 4 * q4 + 4"
    unfolding q4_def using div_bounds [of 4 yoe] by simp_all
  have q100: "100 * q100 \<le> yoe" "yoe < 100 * q100 + 100"
    unfolding q100_def using div_bounds [of 100 yoe] by simp_all
  have mp: "153 * mp \<le> 5 * doy + 2" "5 * doy + 2 < 153 * mp + 153"
    unfolding mp_def using div_bounds [of 153 "5 * doy + 2"] by simp_all
  have a_b: "0 \<le> a" "a \<le> 100" using a doe by linarith+
  have b_b: "0 \<le> b" "b \<le> 4" using b doe by linarith+
  have c_b: "0 \<le> c" "c \<le> 1" using c doe by linarith+
  have b3: "doe \<le> 146095 \<Longrightarrow> b \<le> 3" using b by linarith
  have N_b: "0 \<le> N" "N \<le> 145999"
  proof -
    show "0 \<le> N" using a b_b c doe unfolding N_def by linarith
    show "N \<le> 145999"
    proof (cases "doe = 146096")
      case True
      then have "a = 100" "b = 4" "c = 1" by (simp_all add: a_def b_def c_def)
      with True show ?thesis by (simp add: N_def)
    next
      case False
      then have "doe \<le> 146095" using doe by simp
      with b3 a c_b show ?thesis unfolding N_def by linarith
    qed
  qed
  have yoe_b: "0 \<le> yoe" "yoe \<le> 399" using yoe N_b by linarith+
  have q_b: "0 \<le> q4" "q4 \<le> 99" "0 \<le> q100" "q100 \<le> 3" using q4 q100 yoe_b by linarith+
  have doy_lo: "- 5 \<le> doy"
    unfolding doy_def using yoe(1) q4(1) a(2) b_b c_b q_b a_b unfolding N_def by linarith
  have doy_hi: "doy \<le> 470"
    unfolding doy_def using yoe(2) a_b b_b c_b q_b unfolding N_def by linarith
  have mp_b: "- 1 \<le> mp" "mp \<le> 15" using mp doy_lo doy_hi by linarith+
  have m_b: "0 \<le> m" "m \<le> 99" using mp_b by (auto simp: m_def)
  have d_b: "0 \<le> d" "d \<le> 99"
    using day_from_month_bounds [of doy] by (simp_all add: d_def mp_def)
  have y_lo: "0 \<le> y" using yoe_b era_b by (simp add: y_def)
  have y_hi: "y \<le> 9999"
  proof (cases "era = 24 \<and> yoe = 399")
    case False
    then have "yoe + era * 400 \<le> 9998" using era_b yoe_b by linarith
    then show ?thesis by (simp add: y_def)
  next
    case True
    then have d24: "doe \<le> 146036" using doe24 by simp
    then have c0: "c = 0" using c c_b by linarith
    have b3': "b \<le> 3" using b3 d24 by simp
    have "145635 \<le> N" using yoe(1) True by simp
    then have "145632 + a \<le> doe" using b3' c0 by (simp add: N_def)
    moreover from this a(2) have "99 \<le> a" by linarith
    ultimately have doe_lo: "145731 \<le> doe" by linarith
    have "q4 = 99" "q100 = 3" using True by (simp_all add: q4_def q100_def)
    then have doy_eq: "doy = doe - 145731" using True by (simp add: doy_def)
    have "0 \<le> doy" "doy \<le> 305" using doy_eq doe_lo d24 by simp_all
    then have "0 \<le> mp" "mp \<le> 9" using mp by linarith+
    then have "\<not> m \<le> 2" by (simp add: m_def)
    then show ?thesis using True by (simp add: y_def)
  qed
  show ?thesis using cfd y_lo y_hi m_b d_b by blast
qed

lemma civil_from_days_epoch: "civil_from_days 0 = (1970, 1, 1)"
  by code_simp

lemma civil_from_days_first: "civil_from_days (- 719162) = (1, 1, 1)"
  by code_simp

lemma civil_from_days_last: "civil_from_days 2932896 = (9999, 12, 31)"
  by code_simp

lemma civil_from_days_leap: "civil_from_days 11016 = (2000, 2, 29)"
  by code_simp

lemma civil_from_days_19598: "civil_from_days 19598 = (2023, 8, 29)"
  by code_simp

lemma appendInt_digits:
  assumes "0 \<le> x" and "x < 10 ^ w" and "0 < w"
  shows "length (appendInt x w) = w \<and> digits (appendInt x w)"
proof -
  have "nat x < 10 ^ w" using assms(1,2) by (simp add: nat_less_iff)
  then have len: "length (dec (nat x)) \<le> w"
    using assms(3) by (rule dec_length)
  have "appendInt x w = replicate (w - length (dec (nat x))) (CHR ''0'') @ dec (nat x)"
    using assms(1) by (simp add: appendInt_def pad0_def)
  moreover have "isASCIIDigit (CHR ''0'')" by (simp add: isASCIIDigit_def)
  ultimately show ?thesis
    using len dec_digits [of "nat x"] by (auto simp: digits_def list_all_iff)
qed

lemma appendInt_2:
  assumes "0 \<le> x" and "x \<le> 99"
  shows "appendInt x 2 \<in> lang (rep 2 digit_re)"
  using appendInt_digits [of x 2] assms by (simp add: lang_rep_digit)

lemma appendInt_4:
  assumes "0 \<le> x" and "x \<le> 9999"
  shows "appendInt x 4 \<in> lang (rep 4 digit_re)"
  using appendInt_digits [of x 4] assms by (simp add: lang_rep_digit)

lemma lang_Seq_I: "u \<in> lang r \<Longrightarrow> v \<in> lang s \<Longrightarrow> u @ v \<in> lang (Seq r s)"
  by auto

lemma lang_timestamp:
  assumes "Y \<in> lang (rep 4 digit_re)" and "M \<in> lang (rep 2 digit_re)"
    and "D \<in> lang (rep 2 digit_re)" and "h \<in> lang (rep 2 digit_re)"
    and "mi \<in> lang (rep 2 digit_re)" and "s \<in> lang (rep 2 digit_re)"
    and "fr \<in> lang fraction_re"
  shows "Y @ ''-'' @ M @ ''-'' @ D @ ''T'' @ h @ '':'' @ mi @ '':'' @ s @ fr @ ''Z''
           \<in> lang timestamp_re"
  unfolding timestamp_re_def
  by (intro lang_Seq_I assms) simp_all

lemma time_of_day_bounds:
  fixes secs :: int
  defines "r \<equiv> secs mod 86400"
  shows "0 \<le> r div 3600 \<and> r div 3600 \<le> 99 \<and> 0 \<le> r mod 3600 div 60 \<and>
         r mod 3600 div 60 \<le> 99 \<and> 0 \<le> r mod 60 \<and> r mod 60 \<le> 99"
proof -
  have r: "0 \<le> r" "r < 86400" by (simp_all add: r_def)
  have h: "3600 * (r div 3600) \<le> r" "r < 3600 * (r div 3600) + 3600"
    using div_bounds [of 3600 r] by simp_all
  have m: "0 \<le> r mod 3600" "r mod 3600 < 3600" by simp_all
  have mi: "60 * (r mod 3600 div 60) \<le> r mod 3600"
    "r mod 3600 < 60 * (r mod 3600 div 60) + 60"
    using div_bounds [of 60 "r mod 3600"] by simp_all
  have s: "0 \<le> r mod 60" "r mod 60 < 60" by simp_all
  show ?thesis using r h m mi s by linarith
qed

lemma days_bounds:
  fixes secs :: int
  assumes "- 62135596800 \<le> secs" and "secs \<le> 253402300799"
  shows "- 719162 \<le> secs div 86400" and "secs div 86400 \<le> 2932896"
  using div_bounds [of 86400 secs] assms by linarith+

lemma timestamp_text_matches:
  assumes "- 62135596800 \<le> secs" and "secs \<le> 253402300799"
    and "0 \<le> nanos" and "nanos \<le> 999999999"
  shows "timestamp_text secs nanos \<in> lang timestamp_re"
proof -
  obtain y m d where cfd: "civil_from_days (secs div 86400) = (y, m, d)"
    and b: "0 \<le> y" "y \<le> 9999" "0 \<le> m" "m \<le> 99" "0 \<le> d" "d \<le> 99"
    using civil_from_days_bounds [OF days_bounds [OF assms(1,2)]] by blast
  define r where "r = secs mod 86400"
  have t: "0 \<le> r div 3600" "r div 3600 \<le> 99" "0 \<le> r mod 3600 div 60"
    "r mod 3600 div 60 \<le> 99" "0 \<le> r mod 60" "r mod 60 \<le> 99"
    using time_of_day_bounds [of secs] by (simp_all add: r_def)
  define P where "P = appendInt y 4 @ ''-'' @ appendInt m 2 @ ''-'' @ appendInt d 2 @ ''T'' @
    appendInt (r div 3600) 2 @ '':'' @ appendInt (r mod 3600 div 60) 2 @ '':'' @
    appendInt (r mod 60) 2"
  let ?f = "appendInt nanos 9"
  have f: "length ?f = 9" "digits ?f"
    using appendInt_digits [of nanos 9] assms(3,4) by simp_all
  have tf: "time_Format secs nanos = P @ CHR ''.'' # ?f"
    by (simp add: time_Format_def Let_def cfd P_def r_def)
  obtain fr where tr: "trim3 (P @ CHR ''.'' # ?f) = P @ fr"
    and fr: "fr = [] \<or> (\<exists>ds. fr = CHR ''.'' # ds \<and> digits ds \<and> length ds \<in> {3, 6, 9})"
    using trim3_cases [OF f, of P] by auto
  have frl: "fr \<in> lang fraction_re" using fr by (rule lang_fraction)
  have "appendInt y 4 @ ''-'' @ appendInt m 2 @ ''-'' @ appendInt d 2 @ ''T'' @
    appendInt (r div 3600) 2 @ '':'' @ appendInt (r mod 3600 div 60) 2 @ '':'' @
    appendInt (r mod 60) 2 @ fr @ ''Z'' \<in> lang timestamp_re"
    by (intro lang_timestamp appendInt_2 appendInt_4 b t frl)
  moreover have "timestamp_text secs nanos = appendInt y 4 @ ''-'' @ appendInt m 2 @ ''-'' @
    appendInt d 2 @ ''T'' @
    appendInt (r div 3600) 2 @ '':'' @ appendInt (r mod 3600 div 60) 2 @ '':'' @
    appendInt (r mod 60) 2 @ fr @ ''Z''"
    unfolding timestamp_text_def tf tr by (simp add: P_def)
  ultimately show ?thesis by simp
qed

lemma time_Format_example: "time_Format 1693267200 0 = ''2023-08-29T00:00:00.000000000''"
  by code_simp

lemma marshalTimestamp_valid:
  assumes "Timestamp_invariant m"
  shows "marshalTimestamp e m =
    (e\<lparr>out := out e @
        [TString (timestamp_text (sint (Timestamp_Seconds m)) (sint (Timestamp_Nanos m)))]\<rparr>,
     None)"
  using assms
  by (simp add: Timestamp_invariant_def marshalTimestamp_def Let_def word_sless_alt
        minTimestampSeconds_def maxTimestampSeconds_def secondsInNanos_def sint_scast_32_64
        timestamp_text_def trim3_def WriteString_def)

lemma marshalTimestamp_invalid:
  assumes "\<not> Timestamp_invariant m"
  shows "marshalTimestamp e m =
    (e, Some (if sint (Timestamp_Seconds m) < - 62135596800 \<or>
                 253402300799 < sint (Timestamp_Seconds m)
              then TimestampSecondsOutOfRange (sint (Timestamp_Seconds m))
              else TimestampNanosOutOfRange (sint (Timestamp_Nanos m))))"
  using assms
  by (auto simp: Timestamp_invariant_def marshalTimestamp_def Let_def word_sless_alt
        minTimestampSeconds_def maxTimestampSeconds_def secondsInNanos_def sint_scast_32_64)

lemma marshalTimestamp_example:
  "marshalTimestamp e \<lparr>Timestamp_Seconds = 1693267200, Timestamp_Nanos = 0\<rparr> =
     (e\<lparr>out := out e @ [TString ''2023-08-29T00:00:00Z'']\<rparr>, None)"
proof -
  have "Timestamp_invariant \<lparr>Timestamp_Seconds = 1693267200, Timestamp_Nanos = 0\<rparr>"
    by (simp add: Timestamp_invariant_def)
  from marshalTimestamp_valid [OF this, of e]
  show ?thesis
    by (simp add: timestamp_text_def time_Format_example trim3_def TrimSuffix_def HasSuffix_def)
qed

lemma Timestamp_invariant_example:
  "Timestamp_invariant \<lparr>Timestamp_Seconds = 951782400, Timestamp_Nanos = 120000000\<rparr>"
  by (simp add: Timestamp_invariant_def)

lemma Timestamp_invariant_too_late:
  "\<not> Timestamp_invariant \<lparr>Timestamp_Seconds = 253402300800, Timestamp_Nanos = 0\<rparr>"
  by (simp add: Timestamp_invariant_def)

section \<open>Claims about the timestamp encoder\<close>

text \<open>
  Claim C8. For every timestamp with seconds in [-62135596800, 253402300799] and nanos
  in [0, 999999999], \<^verbatim>\<open>marshalTimestamp\<close> succeeds and writes one string, which matches
  \<^verbatim>\<open>^[0-9]{4}-[0-9]{2}-[0-9]{2}T[0-9]{2}:[0-9]{2}:[0-9]{2}(\.[0-9]{3}|\.[0-9]{6}|\.[0-9]{9})?Z$\<close>:
  it ends in \<^verbatim>\<open>Z\<close>, with no numeric offset, and its fraction has 0, 3, 6 or 9 digits. For a
  timestamp outside these ranges it returns an error and writes nothing. Seconds
  1693267200 with nanos 0 give \<^verbatim>\<open>2023-08-29T00:00:00Z\<close>.
\<close>

theorem marshalTimestamp_matches_timestamp_re:
  "(Timestamp_invariant m \<longrightarrow>
      (\<exists>x. marshalTimestamp e m = (e\<lparr>out := out e @ [TString x]\<rparr>, None) \<and>
           matches timestamp_re x)) \<and>
   (\<not> Timestamp_invariant m \<longrightarrow>
      (\<exists>err. marshalTimestamp e m = (e, Some err))) \<and>
   marshalTimestamp e \<lparr>Timestamp_Seconds = 1693267200, Timestamp_Nanos = 0\<rparr> =
     (e\<lparr>out := out e @ [TString ''2023-08-29T00:00:00Z'']\<rparr>, None)"
proof -
  have valid: "\<exists>x. marshalTimestamp e m = (e\<lparr>out := out e @ [TString x]\<rparr>, None) \<and>
      matches timestamp_re x" if inv: "Timestamp_invariant m"
  proof -
    have "timestamp_text (sint (Timestamp_Seconds m)) (sint (Timestamp_Nanos m))
            \<in> lang timestamp_re"
      using inv by (intro timestamp_text_matches) (simp_all add: Timestamp_invariant_def)
    then show ?thesis
      using marshalTimestamp_valid [OF inv, of e] by (auto simp: matches_iff)
  qed
  have invalid: "\<exists>err. marshalTimestamp e m = (e, Some err)" if "\<not> Timestamp_invariant m"
    using marshalTimestamp_invalid [OF that, of e] by blast
  show ?thesis
    using valid invalid marshalTimestamp_example [of e] by blast
qed

theorem marshalTimestamp_matches_timestamp_re_witness:
  "Timestamp_invariant \<lparr>Timestamp_Seconds = 951782400, Timestamp_Nanos = 120000000\<rparr> \<and>
   (\<exists>x. marshalTimestamp \<lparr>out = [], valid_utf8 = (\<lambda>s. True)\<rparr>
            \<lparr>Timestamp_Seconds = 951782400, Timestamp_Nanos = 120000000\<rparr> =
          (\<lparr>out = [TString x], valid_utf8 = (\<lambda>s. True)\<rparr>, None) \<and>
        matches timestamp_re x) \<and>
   \<not> Timestamp_invariant \<lparr>Timestamp_Seconds = 253402300800, Timestamp_Nanos = 0\<rparr> \<and>
   (\<exists>err. marshalTimestamp \<lparr>out = [], valid_utf8 = (\<lambda>s. True)\<rparr>
            \<lparr>Timestamp_Seconds = 253402300800, Timestamp_Nanos = 0\<rparr> =
          (\<lparr>out = [], valid_utf8 = (\<lambda>s. True)\<rparr>, Some err))"
  using marshalTimestamp_matches_timestamp_re
    [of "\<lparr>Timestamp_Seconds = 951782400, Timestamp_Nanos = 120000000\<rparr>"
        "\<lparr>out = [], valid_utf8 = (\<lambda>s. True)\<rparr>"]
    marshalTimestamp_matches_timestamp_re
    [of "\<lparr>Timestamp_Seconds = 253402300800, Timestamp_Nanos = 0\<rparr>"
        "\<lparr>out = [], valid_utf8 = (\<lambda>s. True)\<rparr>"]
    Timestamp_invariant_example Timestamp_invariant_too_late
  by simp

section \<open>What the Any encoder keeps of the payload\<close>

text \<open>
  \<^verbatim>\<open>marshalAny\<close> reads the payload only through the binary decoder: two messages with the
  same type URL whose payloads the decoder maps to the same result have the same
  encoding. Whether an encoded Any determines its payload is therefore a property of
  the binary codec, which the sources do not hold.
\<close>

lemma marshalAny_same_decoded_payload:
  assumes "Any_TypeUrl x1 = Any_TypeUrl x2" and "Has_Any_TypeUrl x1"
    and "\<And>emt. proto_Unmarshal c emt (Get_Any_Value x1) = proto_Unmarshal c emt (Get_Any_Value x2)"
  shows "marshalAny c e x1 = marshalAny c e x2"
  using assms
  by (simp add: marshalAny_def Has_Any_TypeUrl_def Get_Any_TypeUrl_def Let_def
        split: sum.splits option.splits)

end
